theory Spec2Isabelle
  imports Complex_Main "HOL-Library.Word" "HOL-Library.Sublist"
begin

unbundle bit_operations_syntax

section \<open>The C library functions the code calls\<close>

text \<open>
  The file \<^verbatim>\<open>core/jni/android_os_Debug.cpp\<close> reads text with \<^verbatim>\<open>fgets\<close>,
  \<^verbatim>\<open>sscanf\<close>, \<^verbatim>\<open>strncmp\<close>, \<^verbatim>\<open>strcmp\<close>, \<^verbatim>\<open>strstr\<close>, \<^verbatim>\<open>strlen\<close>,
  \<^verbatim>\<open>isspace\<close> and \<^verbatim>\<open>atoi\<close>. They are modelled after the C standard on character lists.
  A line buffer \<^verbatim>\<open>char line[1024]\<close> is a character list that may hold the terminating
  NUL and, behind it, what earlier reads left there; the C string in a buffer is the
  text before the first NUL.

  The target of the code is 32-bit Android: \<^verbatim>\<open>int\<close>, \<^verbatim>\<open>unsigned\<close>,
  \<^verbatim>\<open>unsigned long\<close>, \<^verbatim>\<open>size_t\<close> and \<^verbatim>\<open>intptr_t\<close> are 32 bits wide (the flag
  \<^verbatim>\<open>SIZE_FLAG_ZYGOTE_CHILD = 1<<31\<close> is the highest bit of a \<^verbatim>\<open>size_t\<close>), and
  \<^verbatim>\<open>jlong\<close> is 64 bits wide. Arithmetic wraps around.
\<close>

type_synonym u32 = "32 word"
type_synonym jlong = "64 word"

definition NUL :: char where
  "NUL = CHR 0x00"

definition cstr :: "string \<Rightarrow> string" where
  "cstr buf = takeWhile (\<lambda>c. c \<noteq> NUL) buf"

definition strlen :: "string \<Rightarrow> nat" where
  "strlen buf = length (cstr buf)"

definition isspace :: "char \<Rightarrow> bool" where
  "isspace c = (c = CHR '' '' \<or> c = CHR 0x09 \<or> c = CHR 0x0A \<or> c = CHR 0x0B
                \<or> c = CHR 0x0C \<or> c = CHR 0x0D)"

definition decval :: "char \<Rightarrow> nat option" where
  "decval c = (let n = (of_char c :: nat) in
     if 48 \<le> n \<and> n \<le> 57 then Some (n - 48) else None)"

definition hexval :: "char \<Rightarrow> nat option" where
  "hexval c = (let n = (of_char c :: nat) in
     if 48 \<le> n \<and> n \<le> 57 then Some (n - 48)
     else if 97 \<le> n \<and> n \<le> 102 then Some (n - 87)
     else if 65 \<le> n \<and> n \<le> 70 then Some (n - 55)
     else None)"

text \<open>The digits of a number in base \<open>b\<close>: the value read and the text left.\<close>

fun scan_num :: "nat \<Rightarrow> (char \<Rightarrow> nat option) \<Rightarrow> nat \<Rightarrow> string \<Rightarrow> nat \<times> string" where
  "scan_num b dv acc [] = (acc, [])"
| "scan_num b dv acc (c # cs) =
     (case dv c of
        Some d \<Rightarrow> scan_num b dv (acc * b + d) cs
      | None \<Rightarrow> (acc, c # cs))"

text \<open>An optional sign in front of a number: whether it is a minus, and the text left.\<close>

definition scan_sign :: "string \<Rightarrow> bool \<times> string" where
  "scan_sign s = (case s of
       [] \<Rightarrow> (False, [])
     | c # r \<Rightarrow> if c = CHR ''-'' then (True, r)
                else if c = CHR ''+'' then (False, r)
                else (False, s))"

text \<open>
  The conversion \<^verbatim>\<open>%d\<close> of \<^verbatim>\<open>sscanf\<close>: white space is skipped, then an optional
  sign and at least one decimal digit are read. The result is the number and the text
  left, or \<open>None\<close> when there is no digit.
\<close>

definition conv_d :: "string \<Rightarrow> (int \<times> string) option" where
  "conv_d s = (let (neg, s2) = scan_sign (dropWhile isspace s) in
     case s2 of
       [] \<Rightarrow> None
     | c # _ \<Rightarrow>
         if decval c = None then None
         else (let (n, rest) = scan_num 10 decval 0 s2 in
               Some (if neg then - int n else int n, rest)))"

text \<open>
  The conversions \<^verbatim>\<open>%x\<close> and \<^verbatim>\<open>%lx\<close>: white space, an optional sign, an optional
  \<^verbatim>\<open>0x\<close> in front of a hexadecimal digit, and at least one hexadecimal digit.
\<close>

definition skip_0x :: "string \<Rightarrow> string" where
  "skip_0x s = (case s of
       c0 # c1 # c2 # r \<Rightarrow>
         if c0 = CHR ''0'' \<and> (c1 = CHR ''x'' \<or> c1 = CHR ''X'') \<and> hexval c2 \<noteq> None
         then c2 # r else s
     | _ \<Rightarrow> s)"

definition conv_x :: "string \<Rightarrow> (int \<times> string) option" where
  "conv_x s = (let (neg, s1) = scan_sign (dropWhile isspace s); s2 = skip_0x s1 in
     case s2 of
       [] \<Rightarrow> None
     | c # _ \<Rightarrow>
         if hexval c = None then None
         else (let (n, rest) = scan_num 16 hexval 0 s2 in
               Some (if neg then - int n else int n, rest)))"

text \<open>The suppressed conversion \<^verbatim>\<open>%*s\<close>: white space, then a non-empty run of other
  characters. The result is the text left.\<close>

definition conv_s :: "string \<Rightarrow> string option" where
  "conv_s s = (let s1 = dropWhile isspace s in
     if s1 = [] then None else Some (dropWhile (\<lambda>c. \<not> isspace c) s1))"

text \<open>An ordinary character of a format must be the next character of the input.\<close>

definition lit :: "char \<Rightarrow> string \<Rightarrow> string option" where
  "lit c s = (case s of [] \<Rightarrow> None | d # r \<Rightarrow> if d = c then Some r else None)"

text \<open>
  \<^verbatim>\<open>strncmp\<close>, \<^verbatim>\<open>strcmp\<close> and \<^verbatim>\<open>strstr\<close> on C strings (lists without NUL, the end
  of the list standing for the terminator). The standard fixes only the sign of a
  non-zero result of a comparison; the model returns the difference of the two
  characters that decide it.
\<close>

fun strncmp :: "string \<Rightarrow> string \<Rightarrow> nat \<Rightarrow> int" where
  "strncmp s1 s2 0 = 0"
| "strncmp [] [] (Suc n) = 0"
| "strncmp [] (c2 # s2) (Suc n) = - int (of_char c2)"
| "strncmp (c1 # s1) [] (Suc n) = int (of_char c1)"
| "strncmp (c1 # s1) (c2 # s2) (Suc n) =
     (if c1 = c2 then strncmp s1 s2 n else int (of_char c1) - int (of_char c2))"

fun strcmp :: "string \<Rightarrow> string \<Rightarrow> int" where
  "strcmp [] [] = 0"
| "strcmp [] (c2 # s2) = - int (of_char c2)"
| "strcmp (c1 # s1) [] = int (of_char c1)"
| "strcmp (c1 # s1) (c2 # s2) =
     (if c1 = c2 then strcmp s1 s2 else int (of_char c1) - int (of_char c2))"

text \<open>\<^verbatim>\<open>strstr\<close> returns the offset of the first occurrence; \<^verbatim>\<open>strstr(name, p) == name\<close>
  is offset 0.\<close>

fun strstr :: "string \<Rightarrow> string \<Rightarrow> nat option" where
  "strstr [] pat = (if pat = [] then Some 0 else None)"
| "strstr (c # s) pat =
     (if prefix pat (c # s) then Some 0 else map_option Suc (strstr s pat))"

text \<open>
  \<^verbatim>\<open>fgets(line, 1024, fp)\<close>: the stream \<open>fp\<close> is the list of the chunks that the
  successive calls deliver (a line with its newline, or 1023 characters of a longer
  line). A call stores the chunk and a NUL at the start of the buffer and leaves the
  rest of the buffer as it was; at the end of the stream it returns \<open>None\<close> and leaves
  the buffer alone.
\<close>

definition store_line :: "string \<Rightarrow> string \<Rightarrow> string" where
  "store_line chunk buf = chunk @ NUL # drop (Suc (length chunk)) buf"

definition fgets :: "string \<Rightarrow> string list \<Rightarrow> (string \<times> string list) option" where
  "fgets buf fp = (case fp of [] \<Rightarrow> None | chunk # rest \<Rightarrow> Some (store_line chunk buf, rest))"


section \<open>The smaps parser: \<^verbatim>\<open>read_mapinfo\<close>\<close>

subsection \<open>Data\<close>

text \<open>The anonymous enumeration of heaps; the values index the array \<^verbatim>\<open>stats\<close>.\<close>

definition HEAP_UNKNOWN :: nat where "HEAP_UNKNOWN = 0"
definition HEAP_DALVIK :: nat where "HEAP_DALVIK = 1"
definition HEAP_NATIVE :: nat where "HEAP_NATIVE = 2"
definition HEAP_DALVIK_OTHER :: nat where "HEAP_DALVIK_OTHER = 3"
definition HEAP_STACK :: nat where "HEAP_STACK = 4"
definition HEAP_CURSOR :: nat where "HEAP_CURSOR = 5"
definition HEAP_ASHMEM :: nat where "HEAP_ASHMEM = 6"
definition HEAP_UNKNOWN_DEV :: nat where "HEAP_UNKNOWN_DEV = 7"
definition HEAP_SO :: nat where "HEAP_SO = 8"
definition HEAP_JAR :: nat where "HEAP_JAR = 9"
definition HEAP_APK :: nat where "HEAP_APK = 10"
definition HEAP_TTF :: nat where "HEAP_TTF = 11"
definition HEAP_DEX :: nat where "HEAP_DEX = 12"
definition HEAP_OAT :: nat where "HEAP_OAT = 13"
definition HEAP_ART :: nat where "HEAP_ART = 14"
definition HEAP_UNKNOWN_MAP :: nat where "HEAP_UNKNOWN_MAP = 15"
definition HEAP_DALVIK_NORMAL :: nat where "HEAP_DALVIK_NORMAL = 16"
definition HEAP_DALVIK_LARGE :: nat where "HEAP_DALVIK_LARGE = 17"
definition HEAP_DALVIK_LINEARALLOC :: nat where "HEAP_DALVIK_LINEARALLOC = 18"
definition HEAP_DALVIK_ACCOUNTING :: nat where "HEAP_DALVIK_ACCOUNTING = 19"
definition HEAP_DALVIK_CODE_CACHE :: nat where "HEAP_DALVIK_CODE_CACHE = 20"
definition NUM_HEAP :: nat where "NUM_HEAP = 21"
definition NUM_EXCLUSIVE_HEAP :: nat where "NUM_EXCLUSIVE_HEAP = HEAP_UNKNOWN_MAP + 1"
definition NUM_CORE_HEAP :: nat where "NUM_CORE_HEAP = HEAP_NATIVE + 1"

lemmas heap_defs =
  HEAP_UNKNOWN_def HEAP_DALVIK_def HEAP_NATIVE_def HEAP_DALVIK_OTHER_def HEAP_STACK_def
  HEAP_CURSOR_def HEAP_ASHMEM_def HEAP_UNKNOWN_DEV_def HEAP_SO_def HEAP_JAR_def
  HEAP_APK_def HEAP_TTF_def HEAP_DEX_def HEAP_OAT_def HEAP_ART_def HEAP_UNKNOWN_MAP_def
  HEAP_DALVIK_NORMAL_def HEAP_DALVIK_LARGE_def HEAP_DALVIK_LINEARALLOC_def
  HEAP_DALVIK_ACCOUNTING_def HEAP_DALVIK_CODE_CACHE_def NUM_HEAP_def
  NUM_EXCLUSIVE_HEAP_def NUM_CORE_HEAP_def

text \<open>\<^verbatim>\<open>struct stats_t\<close>: six \<^verbatim>\<open>int\<close> totals.\<close>

record stats_t =
  pss :: u32
  swappablePss :: u32
  privateDirty :: u32
  sharedDirty :: u32
  privateClean :: u32
  sharedClean :: u32

text \<open>
  The local variables of \<^verbatim>\<open>read_mapinfo\<close> that live across the iterations of its
  loops, with the array \<^verbatim>\<open>stats\<close> of the caller. The variables \<^verbatim>\<open>size\<close>,
  \<^verbatim>\<open>end\<close> and \<^verbatim>\<open>done\<close> carry the suffix \<open>_v\<close>. The \<^verbatim>\<open>float\<close>
  \<^verbatim>\<open>sharing_proportion\<close> only ever holds a non-negative whole number (see \<open>f32\<close>
  below) and is a \<open>nat\<close>. \<^verbatim>\<open>name_pos\<close> is an \<^verbatim>\<open>int\<close> that only \<^verbatim>\<open>%n\<close> and
  increments write, a \<open>nat\<close> here.
\<close>

record locals =
  line :: string
  skip :: bool
  done_v :: bool
  size_v :: u32
  resident :: u32
  pss :: u32
  swappable_pss :: u32
  sharing_proportion :: nat
  shared_clean :: u32
  shared_dirty :: u32
  private_clean :: u32
  private_dirty :: u32
  is_swappable :: bool
  referenced :: u32
  start :: u32
  end_v :: u32
  prevEnd :: u32
  name_pos :: nat
  whichHeap :: nat
  subHeap :: nat
  prevHeap :: nat
  stats :: "stats_t list"

subsection \<open>Single-precision arithmetic on whole numbers\<close>

text \<open>
  \<^verbatim>\<open>sharing_proportion\<close> is assigned the quotient of two \<^verbatim>\<open>unsigned\<close> values,
  converted to \<^verbatim>\<open>float\<close>; it is multiplied by \<^verbatim>\<open>shared_clean\<close> and
  \<^verbatim>\<open>private_clean\<close> is added, both converted to \<^verbatim>\<open>float\<close>. Every value in this
  computation is a non-negative whole number below \<open>2 ^ 65\<close>, and IEEE single precision
  rounds such a number to the nearest number with a 24-bit significand, ties to even:
  the result is a whole number again. \<open>f32 n\<close> is that rounding.
\<close>

fun bitlen :: "nat \<Rightarrow> nat" where
  "bitlen n = (if n = 0 then 0 else Suc (bitlen (n div 2)))"

declare bitlen.simps [simp del]

definition f32 :: "nat \<Rightarrow> nat" where
  "f32 n = (if n < 2 ^ 24 then n
     else (let k = bitlen n - 24; q = n div 2 ^ k; r = n mod 2 ^ k; h = 2 ^ (k - 1) in
           (if h < r \<or> (r = h \<and> odd q) then q + 1 else q) * 2 ^ k))"

subsection \<open>The two uses of \<^verbatim>\<open>sscanf\<close>\<close>

text \<open>
  \<^verbatim>\<open>sscanf(line, "Size: %d kB", &temp) == 1\<close> and its seven siblings: the key and
  its colon must start the line, white space may follow, and \<^verbatim>\<open>%d\<close> must convert.
  What follows the number does not change the result. The \<^verbatim>\<open>int\<close> is stored in the
  \<^verbatim>\<open>unsigned temp\<close>.
\<close>

definition sscanf_kB :: "string \<Rightarrow> string \<Rightarrow> u32 option" where
  "sscanf_kB key s =
     (if prefix key s then
        (case conv_d (dropWhile isspace (drop (length key) s)) of
           Some (n, r) \<Rightarrow> Some (word_of_int n)
         | None \<Rightarrow> None)
      else None)"

text \<open>
  \<^verbatim>\<open>sscanf(line, "%lx-%lx %*s %*x %*x:%*x %*d%n", &start, &end, &name_pos)\<close>. The
  result counts the assignments, so it is 2 as soon as both addresses are read,
  whether or not the rest of the line matches; \<^verbatim>\<open>name_pos\<close> is written only when the
  whole format matches. The model returns the count and what was written to each
  of the three variables.
\<close>

definition sscanf_header_tail :: "string \<Rightarrow> string \<Rightarrow> nat option" where
  "sscanf_header_tail s s3 =
     (case conv_s (dropWhile isspace s3) of None \<Rightarrow> None | Some s4 \<Rightarrow>
     (case conv_x (dropWhile isspace s4) of None \<Rightarrow> None | Some (off, s5) \<Rightarrow>
     (case conv_x (dropWhile isspace s5) of None \<Rightarrow> None | Some (major, s6) \<Rightarrow>
     (case lit (CHR '':'') s6 of None \<Rightarrow> None | Some s7 \<Rightarrow>
     (case conv_x s7 of None \<Rightarrow> None | Some (minor, s8) \<Rightarrow>
     (case conv_d (dropWhile isspace s8) of None \<Rightarrow> None | Some (inode, s9) \<Rightarrow>
        Some (length s - length s9)))))))"

definition sscanf_header :: "string \<Rightarrow> int \<times> u32 option \<times> u32 option \<times> nat option" where
  "sscanf_header s =
     (case conv_x s of
        None \<Rightarrow> (if dropWhile isspace s = [] then - 1 else 0, None, None, None)
      | Some (a, s1) \<Rightarrow>
     (case lit (CHR ''-'') s1 of
        None \<Rightarrow> (1, Some (word_of_int a), None, None)
      | Some s2 \<Rightarrow>
     (case conv_x s2 of
        None \<Rightarrow> (1, Some (word_of_int a), None, None)
      | Some (b, s3) \<Rightarrow>
          (2, Some (word_of_int a), Some (word_of_int b), sscanf_header_tail s s3))))"

subsection \<open>Classification of a mapping by its name (lines 187 to 258)\<close>

definition classify :: "string \<Rightarrow> locals \<Rightarrow> locals" where
  "classify name v = (let nameLen = length name in
     if strstr name ''[heap]'' = Some 0 then v\<lparr>whichHeap := HEAP_NATIVE\<rparr>
     else if strncmp name ''/dev/ashmem'' 11 = 0 then
       (if strncmp name ''/dev/ashmem/dalvik-'' 19 = 0 then
          (let v = v\<lparr>whichHeap := HEAP_DALVIK_OTHER\<rparr> in
           if strstr name ''/dev/ashmem/dalvik-LinearAlloc'' = Some 0 then
             v\<lparr>subHeap := HEAP_DALVIK_LINEARALLOC\<rparr>
           else if strstr name ''/dev/ashmem/dalvik-mark'' = Some 0
                 \<or> strstr name ''/dev/ashmem/dalvik-allocspace alloc space live-bitmap'' = Some 0
                 \<or> strstr name ''/dev/ashmem/dalvik-allocspace alloc space mark-bitmap'' = Some 0
                 \<or> strstr name ''/dev/ashmem/dalvik-card table'' = Some 0
                 \<or> strstr name ''/dev/ashmem/dalvik-allocation stack'' = Some 0
                 \<or> strstr name ''/dev/ashmem/dalvik-live stack'' = Some 0
                 \<or> strstr name ''/dev/ashmem/dalvik-imagespace'' = Some 0
                 \<or> strstr name ''/dev/ashmem/dalvik-bitmap'' = Some 0
                 \<or> strstr name ''/dev/ashmem/dalvik-card-table'' = Some 0
                 \<or> strstr name ''/dev/ashmem/dalvik-mark-stack'' = Some 0
                 \<or> strstr name ''/dev/ashmem/dalvik-aux-structure'' = Some 0 then
             v\<lparr>subHeap := HEAP_DALVIK_ACCOUNTING\<rparr>
           else if strstr name ''/dev/ashmem/dalvik-large'' = Some 0 then
             v\<lparr>whichHeap := HEAP_DALVIK, subHeap := HEAP_DALVIK_LARGE\<rparr>
           else if strstr name ''/dev/ashmem/dalvik-jit-code-cache'' = Some 0 then
             v\<lparr>subHeap := HEAP_DALVIK_CODE_CACHE\<rparr>
           else
             v\<lparr>whichHeap := HEAP_DALVIK, subHeap := HEAP_DALVIK_NORMAL\<rparr>)
        else if strncmp name ''/dev/ashmem/CursorWindow'' 24 = 0 then
          v\<lparr>whichHeap := HEAP_CURSOR\<rparr>
        else if strncmp name ''/dev/ashmem/libc malloc'' 23 = 0 then
          v\<lparr>whichHeap := HEAP_NATIVE\<rparr>
        else
          v\<lparr>whichHeap := HEAP_ASHMEM\<rparr>)
     else if strncmp name ''[anon:libc_malloc]'' 18 = 0 then v\<lparr>whichHeap := HEAP_NATIVE\<rparr>
     else if strncmp name ''[stack'' 6 = 0 then v\<lparr>whichHeap := HEAP_STACK\<rparr>
     else if strncmp name ''/dev/'' 5 = 0 then v\<lparr>whichHeap := HEAP_UNKNOWN_DEV\<rparr>
     else if nameLen > 3 \<and> strcmp (drop (nameLen - 3) name) ''.so'' = 0 then
       v\<lparr>whichHeap := HEAP_SO, is_swappable := True\<rparr>
     else if nameLen > 4 \<and> strcmp (drop (nameLen - 4) name) ''.jar'' = 0 then
       v\<lparr>whichHeap := HEAP_JAR, is_swappable := True\<rparr>
     else if nameLen > 4 \<and> strcmp (drop (nameLen - 4) name) ''.apk'' = 0 then
       v\<lparr>whichHeap := HEAP_APK, is_swappable := True\<rparr>
     else if nameLen > 4 \<and> strcmp (drop (nameLen - 4) name) ''.ttf'' = 0 then
       v\<lparr>whichHeap := HEAP_TTF, is_swappable := True\<rparr>
     else if (nameLen > 4 \<and> strcmp (drop (nameLen - 4) name) ''.dex'' = 0)
           \<or> (nameLen > 5 \<and> strcmp (drop (nameLen - 5) name) ''.odex'' = 0) then
       v\<lparr>whichHeap := HEAP_DEX, is_swappable := True\<rparr>
     else if nameLen > 4 \<and> strcmp (drop (nameLen - 4) name) ''.oat'' = 0 then
       v\<lparr>whichHeap := HEAP_OAT, is_swappable := True\<rparr>
     else if nameLen > 4 \<and> strcmp (drop (nameLen - 4) name) ''.art'' = 0 then
       v\<lparr>whichHeap := HEAP_ART, is_swappable := True\<rparr>
     else if strncmp name ''[anon:'' 6 = 0 then v\<lparr>whichHeap := HEAP_UNKNOWN\<rparr>
     else if nameLen > 0 then v\<lparr>whichHeap := HEAP_UNKNOWN_MAP\<rparr>
     else if start v = prevEnd v \<and> prevHeap v = HEAP_SO then v\<lparr>whichHeap := HEAP_SO\<rparr>
     else v)"

subsection \<open>The loops of \<^verbatim>\<open>read_mapinfo\<close>\<close>

text \<open>The chain of \<^verbatim>\<open>sscanf\<close> tests on a statistic line (lines 270 to 285): the
  variable of the first key that matches is assigned; \<open>None\<close> when no key matches.\<close>

definition parse_stat :: "string \<Rightarrow> locals \<Rightarrow> locals option" where
  "parse_stat s v =
     (case sscanf_kB ''Size:'' s of Some temp \<Rightarrow> Some (v\<lparr>size_v := temp\<rparr>) | None \<Rightarrow>
     (case sscanf_kB ''Rss:'' s of Some temp \<Rightarrow> Some (v\<lparr>resident := temp\<rparr>) | None \<Rightarrow>
     (case sscanf_kB ''Pss:'' s of Some temp \<Rightarrow> Some (v\<lparr>pss := temp\<rparr>) | None \<Rightarrow>
     (case sscanf_kB ''Shared_Clean:'' s of Some temp \<Rightarrow> Some (v\<lparr>shared_clean := temp\<rparr>) | None \<Rightarrow>
     (case sscanf_kB ''Shared_Dirty:'' s of Some temp \<Rightarrow> Some (v\<lparr>shared_dirty := temp\<rparr>) | None \<Rightarrow>
     (case sscanf_kB ''Private_Clean:'' s of Some temp \<Rightarrow> Some (v\<lparr>private_clean := temp\<rparr>) | None \<Rightarrow>
     (case sscanf_kB ''Private_Dirty:'' s of Some temp \<Rightarrow> Some (v\<lparr>private_dirty := temp\<rparr>) | None \<Rightarrow>
     (case sscanf_kB ''Referenced:'' s of Some temp \<Rightarrow> Some (v\<lparr>referenced := temp\<rparr>) | None \<Rightarrow>
        None))))))))"

text \<open>\<^verbatim>\<open>strlen(line) > 30 && line[8] == '-' && line[17] == ' '\<close>: the line looks like
  the header of a new mapping.\<close>

definition looks_like_mapping :: "string \<Rightarrow> bool" where
  "looks_like_mapping s = (length s > 30 \<and> s ! 8 = CHR ''-'' \<and> s ! 17 = CHR '' '')"

text \<open>
  The inner loop \<^verbatim>\<open>while (true)\<close> (lines 264 to 291). It returns the variables and
  the stream that is left. At the end of the stream \<^verbatim>\<open>done\<close> is set; at a line that
  looks like a new mapping the loop is left with that line in the buffer.
\<close>

fun stat_loop :: "locals \<Rightarrow> string list \<Rightarrow> locals \<times> string list" where
  "stat_loop v [] = (v\<lparr>done_v := True\<rparr>, [])"
| "stat_loop v (chunk # fp) =
     (let v1 = v\<lparr>line := store_line chunk (line v)\<rparr> in
      case parse_stat (cstr (line v1)) v1 of
        Some v2 \<Rightarrow> stat_loop v2 fp
      | None \<Rightarrow>
          if looks_like_mapping (cstr (line v1)) then (v1, fp)
          else stat_loop v1 fp)"

text \<open>The start of an iteration of the outer loop (lines 167 to 172).\<close>

definition begin_block :: "locals \<Rightarrow> locals" where
  "begin_block v = v\<lparr>prevHeap := whichHeap v, prevEnd := end_v v,
     whichHeap := HEAP_UNKNOWN, subHeap := HEAP_UNKNOWN,
     skip := False, is_swappable := False\<rparr>"

text \<open>\<^verbatim>\<open>line[--len] = 0\<close> with \<^verbatim>\<open>len = strlen(line)\<close>, which is at least 1 here.\<close>

definition chop :: "string \<Rightarrow> string" where
  "chop buf = buf[strlen buf - 1 := NUL]"

text \<open>
  Lines 178 to 259: the header is scanned; unless both addresses were read the block
  is skipped; otherwise white space is stepped over from \<^verbatim>\<open>name_pos\<close> and the name
  found there is classified. When \<^verbatim>\<open>sscanf\<close> returns 2 without reaching \<^verbatim>\<open>%n\<close>,
  \<^verbatim>\<open>name_pos\<close> keeps the value it had.
\<close>

definition parse_header :: "locals \<Rightarrow> locals" where
  "parse_header v =
     (case sscanf_header (cstr (line v)) of (ret, st, en, np) \<Rightarrow>
        (let v1 = v\<lparr>start := (case st of Some a \<Rightarrow> a | None \<Rightarrow> start v),
                     end_v := (case en of Some b \<Rightarrow> b | None \<Rightarrow> end_v v),
                     name_pos := (case np of Some n \<Rightarrow> n | None \<Rightarrow> name_pos v)\<rparr> in
         if ret \<noteq> 2 then v1\<lparr>skip := True\<rparr>
         else
           (let v2 = v1\<lparr>name_pos := name_pos v1
                          + length (takeWhile isspace (drop (name_pos v1) (line v1)))\<rparr>;
                name = cstr (drop (name_pos v2) (line v2))
            in classify name v2)))"

text \<open>
  Lines 294 to 301. The quotient is one of \<^verbatim>\<open>unsigned\<close> values, so it is a division
  of 32-bit numbers that drops the remainder, with a difference that wraps around; the
  result is converted to \<^verbatim>\<open>float\<close>. The product and the sum are single-precision
  operations, and the assignment to the \<^verbatim>\<open>unsigned swappable_pss\<close> converts back.
  (C leaves a division by zero, which needs \<^verbatim>\<open>shared_clean + shared_dirty\<close> to wrap
  around to 0, and the conversion of a value of \<open>2 ^ 32\<close> or more undefined; here the
  first is 0 and the second wraps.)
\<close>

definition compute_swappable :: "locals \<Rightarrow> locals" where
  "compute_swappable v =
     (if is_swappable v \<and> pss v > 0 then
        (let v1 = v\<lparr>sharing_proportion := 0\<rparr>;
             v2 = (if shared_clean v1 > 0 \<or> shared_dirty v1 > 0 then
                     v1\<lparr>sharing_proportion :=
                          f32 (unat ((pss v1 - private_clean v1 - private_dirty v1)
                                     div (shared_clean v1 + shared_dirty v1)))\<rparr>
                   else v1)
         in v2\<lparr>swappable_pss :=
                 word_of_nat (f32 (f32 (sharing_proportion v2 * f32 (unat (shared_clean v2)))
                                   + f32 (unat (private_clean v2))))\<rparr>)
      else v\<lparr>swappable_pss := 0\<rparr>)"

text \<open>The six additions to \<^verbatim>\<open>stats[h]\<close> (lines 303 to 308 and 310 to 315).\<close>

definition add_to :: "nat \<Rightarrow> locals \<Rightarrow> locals" where
  "add_to h v = v\<lparr>stats := (stats v)[h := (stats v ! h)
       \<lparr>stats_t.pss := stats_t.pss (stats v ! h) + pss v,
        swappablePss := swappablePss (stats v ! h) + swappable_pss v,
        privateDirty := privateDirty (stats v ! h) + private_dirty v,
        sharedDirty := sharedDirty (stats v ! h) + shared_dirty v,
        privateClean := privateClean (stats v ! h) + private_clean v,
        sharedClean := sharedClean (stats v ! h) + shared_clean v\<rparr>]\<rparr>"

text \<open>Lines 293 to 317: what a completed block adds to the totals.\<close>

definition end_block :: "locals \<Rightarrow> locals" where
  "end_block v =
     (if \<not> skip v then
        (let v1 = compute_swappable v;
             v2 = add_to (whichHeap v1) v1
         in if whichHeap v2 = HEAP_DALVIK \<or> whichHeap v2 = HEAP_DALVIK_OTHER
            then add_to (subHeap v2) v2 else v2)
      else v)"

text \<open>One iteration of the outer loop from line 176 on, for a header line of at least
  one character in the buffer: the variables after the block and the stream left.\<close>

definition block :: "locals \<Rightarrow> string list \<Rightarrow> locals \<times> string list" where
  "block v fp =
     (let v1 = parse_header (v\<lparr>line := chop (line v)\<rparr>);
          r = stat_loop v1 fp
      in (end_block (fst r), snd r))"

text \<open>The outer loop \<^verbatim>\<open>while (!done)\<close> (lines 166 to 318), entered with a line in the
  buffer; \<^verbatim>\<open>if (len < 1) return\<close> leaves the function.\<close>

function mapinfo_loop :: "locals \<Rightarrow> string list \<Rightarrow> locals" where
  "mapinfo_loop v fp =
     (if strlen (line v) < 1 then begin_block v
      else (case block (begin_block v) fp of (v', fp') \<Rightarrow>
              if done_v v' then v' else mapinfo_loop v' fp'))"
  by pat_completeness auto
termination
proof -
  have stat_loop_shorter:
    "done_v (fst (stat_loop v fp)) \<or> length (snd (stat_loop v fp)) < length fp" for v fp
  proof (induction fp arbitrary: v)
    case Nil
    show ?case by simp
  next
    case (Cons chunk fp)
    show ?case
    proof (cases "parse_stat (cstr (store_line chunk (line v)))
                    (v\<lparr>line := store_line chunk (line v)\<rparr>)")
      case None
      then show ?thesis
        using Cons.IH [of "v\<lparr>line := store_line chunk (line v)\<rparr>"]
        by (auto simp: Let_def)
    next
      case (Some v2)
      then show ?thesis
        using Cons.IH [of v2] by (auto simp: Let_def)
    qed
  qed
  have done_end_block: "done_v (end_block v) = done_v v" for v
    by (simp add: end_block_def add_to_def compute_swappable_def Let_def)
  have block_shorter:
    "done_v (fst (block v fp)) \<or> length (snd (block v fp)) < length fp" for v fp
    using stat_loop_shorter by (simp add: block_def Let_def done_end_block)
  show ?thesis
    apply (relation "measure (\<lambda>(v, fp). length fp)")
     apply simp
    subgoal for v fp
      using block_shorter [of "begin_block v" fp]
      by (cases "block (begin_block v) fp") auto
    done
qed

declare mapinfo_loop.simps [simp del]

text \<open>
  \<^verbatim>\<open>read_mapinfo(fp, stats)\<close>. What the buffer and \<^verbatim>\<open>name_pos\<close> hold at the start is
  indeterminate in C: \<open>line0\<close> and \<open>name_pos0\<close> stand for it. The result is the array
  \<^verbatim>\<open>stats\<close>.
\<close>

definition init_locals :: "string \<Rightarrow> nat \<Rightarrow> stats_t list \<Rightarrow> locals" where
  "init_locals buf name_pos0 stats0 =
     \<lparr>line = buf, skip = False, done_v = False, size_v = 0, resident = 0, pss = 0,
      swappable_pss = 0, sharing_proportion = 0, shared_clean = 0, shared_dirty = 0,
      private_clean = 0, private_dirty = 0, is_swappable = False, referenced = 0,
      start = 0, end_v = 0, prevEnd = 0, name_pos = name_pos0,
      whichHeap = HEAP_UNKNOWN, subHeap = HEAP_UNKNOWN, prevHeap = HEAP_UNKNOWN,
      stats = stats0\<rparr>"

definition read_mapinfo :: "string \<Rightarrow> nat \<Rightarrow> string list \<Rightarrow> stats_t list \<Rightarrow> stats_t list" where
  "read_mapinfo line0 name_pos0 fp stats0 =
     (case fgets line0 fp of
        None \<Rightarrow> stats0
      | Some (buf, fp') \<Rightarrow> stats (mapinfo_loop (init_locals buf name_pos0 stats0) fp'))"

text \<open>\<^verbatim>\<open>load_maps\<close>: \<^verbatim>\<open>fopen\<close> gives the stream of \<^verbatim>\<open>/proc/pid/smaps\<close> or fails.\<close>

definition load_maps :: "string \<Rightarrow> nat \<Rightarrow> string list option \<Rightarrow> stats_t list \<Rightarrow> stats_t list" where
  "load_maps line0 name_pos0 smaps stats0 =
     (case smaps of None \<Rightarrow> stats0 | Some fp \<Rightarrow> read_mapinfo line0 name_pos0 fp stats0)"

text \<open>
  \<^verbatim>\<open>android_os_Debug_getDirtyPagesPid\<close> up to line 350: the array is cleared, the
  listing is read, and every heap from \<^verbatim>\<open>_NUM_CORE_HEAP\<close> up to
  \<^verbatim>\<open>_NUM_EXCLUSIVE_HEAP\<close> is added into \<^verbatim>\<open>stats[HEAP_UNKNOWN]\<close>.
\<close>

definition zero_stats :: stats_t where
  "zero_stats = \<lparr>stats_t.pss = 0, swappablePss = 0, privateDirty = 0, sharedDirty = 0,
                 privateClean = 0, sharedClean = 0\<rparr>"

definition fold_other :: "nat \<Rightarrow> stats_t list \<Rightarrow> stats_t list" where
  "fold_other i st = st[HEAP_UNKNOWN := (st ! HEAP_UNKNOWN)
       \<lparr>stats_t.pss := stats_t.pss (st ! HEAP_UNKNOWN) + stats_t.pss (st ! i),
        swappablePss := swappablePss (st ! HEAP_UNKNOWN) + swappablePss (st ! i),
        privateDirty := privateDirty (st ! HEAP_UNKNOWN) + privateDirty (st ! i),
        sharedDirty := sharedDirty (st ! HEAP_UNKNOWN) + sharedDirty (st ! i),
        privateClean := privateClean (st ! HEAP_UNKNOWN) + privateClean (st ! i),
        sharedClean := sharedClean (st ! HEAP_UNKNOWN) + sharedClean (st ! i)\<rparr>]"

definition getDirtyPagesPid_stats :: "string \<Rightarrow> nat \<Rightarrow> string list option \<Rightarrow> stats_t list" where
  "getDirtyPagesPid_stats line0 name_pos0 smaps =
     fold fold_other [NUM_CORE_HEAP ..< NUM_EXCLUSIVE_HEAP]
       (load_maps line0 name_pos0 smaps (replicate NUM_HEAP zero_stats))"

section \<open>The single-pass helper \<^verbatim>\<open>android_os_Debug_getPssPid\<close>\<close>

text \<open>
  \<^verbatim>\<open>atoi\<close>: white space, an optional sign and decimal digits; 0 when there is no
  digit. The result is an \<^verbatim>\<open>int\<close> of 32 bits. C leaves the result for a number
  outside the range of \<^verbatim>\<open>int\<close> undefined; the model keeps its low 32 bits, as the
  conversion \<^verbatim>\<open>%d\<close> above does.
\<close>

definition atoi :: "string \<Rightarrow> u32" where
  "atoi s = (case conv_d s of Some (n, r) \<Rightarrow> word_of_int n | None \<Rightarrow> 0)"

text \<open>\<^verbatim>\<open>while (*c != 0 && (*c < '0' || *c > '9')) c++;\<close> on the buffer from \<open>c\<close> on.\<close>

definition skip_to_digit :: "string \<Rightarrow> string" where
  "skip_to_digit c = dropWhile (\<lambda>x. x \<noteq> NUL \<and> decval x = None) c"

text \<open>
  Lines 406 to 421 for the buffer \<^verbatim>\<open>line\<close> that \<^verbatim>\<open>fgets\<close> has just filled, here
  \<open>buf\<close>; the pair is \<^verbatim>\<open>(pss, uss)\<close>. \<^verbatim>\<open>line + 4\<close> and \<^verbatim>\<open>line + 14\<close> are offsets
  into the buffer, whatever the length of the line in it. The \<^verbatim>\<open>int\<close> that
  \<^verbatim>\<open>atoi\<close> returns is widened with its sign to the \<^verbatim>\<open>jlong\<close> it is added to.
\<close>

definition pss_line :: "string \<Rightarrow> jlong \<times> jlong \<Rightarrow> jlong \<times> jlong" where
  "pss_line buf acc = (case acc of (pss_sum, uss_sum) \<Rightarrow>
     if buf ! 0 = CHR ''P'' then
       (if strncmp (cstr buf) ''Pss:'' 4 = 0 then
          (pss_sum + scast (atoi (cstr (skip_to_digit (drop 4 buf)))), uss_sum)
        else if strncmp (cstr buf) ''Private_Clean:'' 14 \<noteq> 0
              \<or> strncmp (cstr buf) ''Private_Dirty:'' 14 \<noteq> 0 then
          (pss_sum, uss_sum + scast (atoi (cstr (skip_to_digit (drop 14 buf)))))
        else (pss_sum, uss_sum))
     else (pss_sum, uss_sum))"

fun getPss_loop :: "string \<Rightarrow> jlong \<times> jlong \<Rightarrow> string list \<Rightarrow> jlong \<times> jlong" where
  "getPss_loop buf acc [] = acc"
| "getPss_loop buf acc (chunk # fp) =
     getPss_loop (store_line chunk buf) (pss_line (store_line chunk buf) acc) fp"

text \<open>
  The whole function: \<open>smaps\<close> is \<open>None\<close> when \<^verbatim>\<open>fopen\<close> fails, \<open>outUss\<close> is \<open>None\<close>
  for a null array, \<open>line0\<close> is what the buffer holds at the start. The result is
  the value returned and the array.
\<close>

definition getPssPid :: "string \<Rightarrow> string list option \<Rightarrow> jlong list option
    \<Rightarrow> jlong \<times> jlong list option" where
  "getPssPid line0 smaps outUss =
     (case smaps of
        None \<Rightarrow> (0, outUss)
      | Some fp \<Rightarrow>
          (case getPss_loop line0 (0, 0) fp of (pss_sum, uss_sum) \<Rightarrow>
             (pss_sum, case outUss of
                     None \<Rightarrow> None
                   | Some arr \<Rightarrow> if length arr \<ge> 1 then Some (arr[0 := uss_sum]) else Some arr)))"

section \<open>The native heap dump\<close>

definition SIZE_FLAG_ZYGOTE_CHILD :: u32 where
  "SIZE_FLAG_ZYGOTE_CHILD = push_bit 31 1"

definition BACKTRACE_SIZE :: nat where
  "BACKTRACE_SIZE = 32"

text \<open>
  A record of the array that \<^verbatim>\<open>get_malloc_leak_info\<close> returns, as the comment above
  \<^verbatim>\<open>dumpNativeHeap\<close> lays it out: \<^verbatim>\<open>size_t size; size_t allocations; intptr_t
  backtrace[32]\<close>. The field \<^verbatim>\<open>size\<close> is \<open>rsize\<close> here. A backtrace is a list of
  \<open>BACKTRACE_SIZE\<close> slots.
\<close>

record heap_record =
  rsize :: u32
  allocations :: u32
  backtrace :: "u32 list"

definition wf_record :: "heap_record \<Rightarrow> bool" where
  "wf_record r = (length (backtrace r) = BACKTRACE_SIZE)"

text \<open>The loop of \<^verbatim>\<open>compareHeapRecords\<close> from index \<open>idx\<close> on, \<open>n\<close> slots being left;
  \<^verbatim>\<open>intptr_t\<close> values are compared as signed numbers.\<close>

fun compare_backtrace :: "u32 list \<Rightarrow> u32 list \<Rightarrow> nat \<Rightarrow> nat \<Rightarrow> int" where
  "compare_backtrace bt1 bt2 idx 0 = 0"
| "compare_backtrace bt1 bt2 idx (Suc n) =
     (let addr1 = bt1 ! idx; addr2 = bt2 ! idx in
      if addr1 = addr2 then
        (if addr1 = 0 then 0 else compare_backtrace bt1 bt2 (Suc idx) n)
      else if addr1 <s addr2 then - 1
      else if addr2 <s addr1 then 1
      else compare_backtrace bt1 bt2 (Suc idx) n)"

definition compareHeapRecords :: "heap_record \<Rightarrow> heap_record \<Rightarrow> int" where
  "compareHeapRecords rec1 rec2 =
     (let size1 = rsize rec1; size2 = rsize rec2 in
      if size1 < size2 then 1
      else if size1 > size2 then - 1
      else compare_backtrace (backtrace rec1) (backtrace rec2) 0 BACKTRACE_SIZE)"

text \<open>
  \<^verbatim>\<open>qsort\<close> with a comparison function. The C standard leaves the order of elements
  that compare equal open; the model is an insertion sort.
\<close>

fun qsort_insert :: "('a \<Rightarrow> 'a \<Rightarrow> int) \<Rightarrow> 'a \<Rightarrow> 'a list \<Rightarrow> 'a list" where
  "qsort_insert cmp x [] = [x]"
| "qsort_insert cmp x (y # ys) =
     (if cmp x y \<le> 0 then x # y # ys else y # qsort_insert cmp x ys)"

definition qsort :: "('a \<Rightarrow> 'a \<Rightarrow> int) \<Rightarrow> 'a list \<Rightarrow> 'a list" where
  "qsort cmp xs = foldr (qsort_insert cmp) xs []"

text \<open>The conversions of \<^verbatim>\<open>fprintf\<close> that the dump uses.\<close>

definition digit_char :: "nat \<Rightarrow> char" where
  "digit_char d = (if d < 10 then char_of (48 + d) else char_of (87 + d))"

fun show_base :: "nat \<Rightarrow> nat \<Rightarrow> nat \<Rightarrow> string" where
  "show_base b 0 n = []"
| "show_base b (Suc fuel) n =
     (if n < b then [digit_char n] else show_base b fuel (n div b) @ [digit_char (n mod b)])"

text \<open>A 32-bit number has at most 10 decimal and 8 hexadecimal digits.\<close>

definition show_dec :: "nat \<Rightarrow> string" where
  "show_dec n = show_base 10 (Suc n) n"

definition show_hex :: "nat \<Rightarrow> string" where
  "show_hex n = show_base 16 (Suc n) n"

definition pad_left :: "char \<Rightarrow> nat \<Rightarrow> string \<Rightarrow> string" where
  "pad_left c w s = replicate (w - length s) c @ s"

definition show_int :: "int \<Rightarrow> string" where
  "show_int i = (if i < 0 then CHR ''-'' # show_dec (nat (- i)) else show_dec (nat i))"

definition nl :: string where
  "nl = [CHR 0x0A]"

text \<open>Lines 595 to 606: the line of one record.\<close>

definition record_line :: "nat \<Rightarrow> heap_record \<Rightarrow> string" where
  "record_line backtraceSize r =
     ''z '' @ (if rsize r AND SIZE_FLAG_ZYGOTE_CHILD \<noteq> 0 then ''1'' else ''0'')
     @ ''  sz '' @ pad_left (CHR '' '') 8 (show_dec (unat (rsize r AND NOT SIZE_FLAG_ZYGOTE_CHILD)))
     @ ''  num '' @ pad_left (CHR '' '') 4 (show_dec (unat (allocations r)))
     @ ''  bt''
     @ concat (map (\<lambda>a. '' '' @ pad_left (CHR ''0'') 8 (show_hex (unat a)))
                (takeWhile (\<lambda>a. a \<noteq> 0) (take backtraceSize (backtrace r))))
     @ nl"

datatype error = AssertionFailed

text \<open>
  \<^verbatim>\<open>dumpNativeHeap\<close>. \<^verbatim>\<open>get_malloc_leak_info\<close> gives \<open>info\<close> (\<open>None\<close> for a null
  pointer, else the array of records), \<open>overallSize\<close>, \<open>infoSize\<close>, \<open>totalMemory\<close>
  and \<open>backtraceSize\<close>; \<open>maps\<close> is the content of \<^verbatim>\<open>/proc/self/maps\<close>, \<open>None\<close> when
  it cannot be opened. The result is the text written to \<open>fp\<close>, or the failed
  assertion.
\<close>

definition dumpNativeHeap :: "heap_record list option \<Rightarrow> nat \<Rightarrow> nat \<Rightarrow> nat \<Rightarrow> nat
    \<Rightarrow> string option \<Rightarrow> error + string" where
  "dumpNativeHeap info overallSize infoSize totalMemory backtraceSize maps =
     (case info of
        None \<Rightarrow>
          Inr (''Native heap dump not available. To enable, run these commands (requires root):'' @ nl
               @ ''$ adb shell setprop libc.debug.malloc 1'' @ nl
               @ ''$ adb shell stop'' @ nl
               @ ''$ adb shell start'' @ nl)
      | Some recs \<Rightarrow>
          if infoSize = 0 then Inl AssertionFailed
          else if overallSize mod infoSize \<noteq> 0 then Inl AssertionFailed
          else
            (let recordCount = overallSize div infoSize;
                 head = ''Android Native Heap Dump v1.0'' @ nl @ nl
                   @ ''Total memory: '' @ show_dec totalMemory @ nl
                   @ ''Allocation records: '' @ show_dec recordCount @ nl
                   @ (if backtraceSize \<noteq> BACKTRACE_SIZE then
                        ''WARNING: mismatched backtrace sizes ('' @ show_int (int backtraceSize)
                        @ '' vs. '' @ show_int (int BACKTRACE_SIZE) @ '')'' @ nl
                      else [])
                   @ nl;
                 ordered = qsort compareHeapRecords (take recordCount recs);
                 body = concat (map (record_line backtraceSize) ordered)
             in Inr (head @ body @ ''MAPS'' @ nl
                     @ (case maps of
                          None \<Rightarrow> ''Could not open /proc/self/maps'' @ nl
                        | Some content \<Rightarrow> content @ ''END'' @ nl))))"

section \<open>Reference notions and sample data for the properties\<close>

text \<open>The text that \<^verbatim>\<open>dumpNativeHeap\<close> prints when allocation tracking is off.\<close>

definition guidance :: string where
  "guidance = ''Native heap dump not available. To enable, run these commands (requires root):'' @ nl
     @ ''$ adb shell setprop libc.debug.malloc 1'' @ nl
     @ ''$ adb shell stop'' @ nl
     @ ''$ adb shell start'' @ nl"

text \<open>Two backtraces agree, without a zero, on the slots from \<open>k\<close> up to \<open>i\<close>
  (exclusive).\<close>

definition same_upto :: "u32 list \<Rightarrow> u32 list \<Rightarrow> nat \<Rightarrow> nat \<Rightarrow> bool" where
  "same_upto bt1 bt2 k i = list_all (\<lambda>j. bt1 ! j = bt2 ! j \<and> bt1 ! j \<noteq> 0) [k ..< i]"

text \<open>Sample allocation records: a small one, one of size 1 with the zygote-child
  flag set, and two of equal size with the backtraces \<open>[1,2,0,\<dots>]\<close> and
  \<open>[1,3,0,\<dots>]\<close>.\<close>

definition rec_plain :: heap_record where
  "rec_plain = \<lparr>rsize = 5, allocations = 1, backtrace = 1 # replicate 31 0\<rparr>"

definition rec_flagged :: heap_record where
  "rec_flagged = \<lparr>rsize = 0x80000001, allocations = 1, backtrace = 1 # replicate 31 0\<rparr>"

definition rec_bt2 :: heap_record where
  "rec_bt2 = \<lparr>rsize = 16, allocations = 1, backtrace = 1 # 2 # replicate 30 0\<rparr>"

definition rec_bt3 :: heap_record where
  "rec_bt3 = \<lparr>rsize = 16, allocations = 4, backtrace = 1 # 3 # replicate 30 0\<rparr>"

text \<open>Records of equal size with an address of the upper half of the 32-bit address
  space, where the libraries and the stack of a process lie: one frame at
  \<open>0x40000000\<close>, one frame at \<open>0xb6f00000\<close>, the backtrace \<open>[1]\<close> and the backtrace
  \<open>[1, 0xb6f00000]\<close>.\<close>

definition rec_low :: heap_record where
  "rec_low = \<lparr>rsize = 16, allocations = 1, backtrace = 0x40000000 # replicate 31 0\<rparr>"

definition rec_high :: heap_record where
  "rec_high = \<lparr>rsize = 16, allocations = 1, backtrace = 0xb6f00000 # replicate 31 0\<rparr>"

definition rec_short :: heap_record where
  "rec_short = \<lparr>rsize = 16, allocations = 1, backtrace = 1 # replicate 31 0\<rparr>"

definition rec_long :: heap_record where
  "rec_long = \<lparr>rsize = 16, allocations = 1, backtrace = 1 # 0xb6f00000 # replicate 30 0\<rparr>"

text \<open>
  The name that \<^verbatim>\<open>read_mapinfo\<close> finds in a header line (lines 178 to 185), for the
  buffer after the last character of the line is cut off and the value \<^verbatim>\<open>name_pos\<close>
  had before; \<open>None\<close> when \<^verbatim>\<open>sscanf\<close> does not return 2.
\<close>

definition mapping_name :: "string \<Rightarrow> nat \<Rightarrow> string option" where
  "mapping_name buf old_pos =
     (case sscanf_header (cstr buf) of (ret, st, en, np) \<Rightarrow>
        if ret \<noteq> 2 then None
        else (let p = (case np of Some n \<Rightarrow> n | None \<Rightarrow> old_pos);
                  q = p + length (takeWhile isspace (drop p buf))
              in Some (cstr (drop q buf))))"

text \<open>The keys of the statistic lines, and the lines that one of the eight
  \<^verbatim>\<open>sscanf\<close> tests accepts.\<close>

definition stat_keys :: "string list" where
  "stat_keys = [''Size:'', ''Rss:'', ''Pss:'', ''Shared_Clean:'', ''Shared_Dirty:'',
                ''Private_Clean:'', ''Private_Dirty:'', ''Referenced:'']"

definition is_stat_line :: "string \<Rightarrow> bool" where
  "is_stat_line s = list_ex (\<lambda>key. sscanf_kB key s \<noteq> None) stat_keys"

text \<open>The lines of a stream behind the first line that is no statistic line and looks
  like a new mapping: what is left to read after the block that starts the stream.\<close>

fun lines_after_block :: "string list \<Rightarrow> string list" where
  "lines_after_block [] = []"
| "lines_after_block (l # ls) =
     (if is_stat_line (cstr l) then lines_after_block ls
      else if looks_like_mapping (cstr l) then ls
      else lines_after_block ls)"

text \<open>A statistic line with the key \<open>key\<close> stands among the lines of the block that
  starts the stream.\<close>

fun key_in_block :: "string \<Rightarrow> string list \<Rightarrow> bool" where
  "key_in_block key [] = False"
| "key_in_block key (l # ls) =
     (if is_stat_line (cstr l) then (if sscanf_kB key (cstr l) = None then key_in_block key ls else True)
      else if looks_like_mapping (cstr l) then False
      else key_in_block key ls)"

text \<open>The heap of a classified block is one of the exclusive heaps, and a Dalvik block
  has one of the sub-heaps behind them.\<close>

definition block_inv :: "locals \<Rightarrow> bool" where
  "block_inv v = (whichHeap v < NUM_EXCLUSIVE_HEAP
     \<and> (whichHeap v = HEAP_DALVIK \<or> whichHeap v = HEAP_DALVIK_OTHER
          \<longrightarrow> NUM_EXCLUSIVE_HEAP \<le> subHeap v))"

text \<open>Sample listings and parser states.\<close>

definition heap_header :: string where
  "heap_header = ''b7a00000-b7a21000 rw-p 00000000 00:00 0          [heap]'' @ nl"

definition stack_header :: string where
  "stack_header = ''bef00000-bef21000 rw-p 00000000 00:00 0          [stack]'' @ nl"

definition bad_header :: string where
  "bad_header = ''not a mapping header'' @ nl"

definition heap_stats :: "string list" where
  "heap_stats = [''Pss:                  12 kB'' @ nl, ''Shared_Clean:          4 kB'' @ nl,
                 ''Private_Clean:         8 kB'' @ nl]"

definition heap_locals :: locals where
  "heap_locals = init_locals (store_line heap_header []) 0 (replicate NUM_HEAP zero_stats)"

definition bad_locals :: locals where
  "bad_locals = init_locals (store_line bad_header []) 0 (replicate NUM_HEAP zero_stats)"

definition bad_rest :: "string list" where
  "bad_rest = [''Pss:                  12 kB'' @ nl, ''Private_Dirty:        12 kB'' @ nl,
               heap_header, ''Pss:                   3 kB'' @ nl]"

definition size_only_smaps :: "string list" where
  "size_only_smaps = [heap_header, ''Size:                132 kB'' @ nl, stack_header]"

definition carried_locals :: locals where
  "carried_locals = (init_locals (store_line stack_header []) 0 (replicate NUM_HEAP zero_stats))\<lparr>pss := 12\<rparr>"

definition carried_rest :: "string list" where
  "carried_rest = [''Private_Dirty:         4 kB'' @ nl]"

text \<open>The listing of the example: one mapping of \<^verbatim>\<open>/system/lib/libfoo.so\<close> with
  \<^verbatim>\<open>Pss\<close> 100, \<^verbatim>\<open>Shared_Clean\<close> 50, \<^verbatim>\<open>Shared_Dirty\<close> 20, \<^verbatim>\<open>Private_Clean\<close> 20 and
  \<^verbatim>\<open>Private_Dirty\<close> 10; and the same mapping with \<^verbatim>\<open>Shared_Dirty\<close> 50.\<close>

definition libfoo_header :: string where
  "libfoo_header = ''40000000-40001000 r-xp 00000000 b3:01 1234    /system/lib/libfoo.so'' @ nl"

definition libfoo_smaps :: "string list" where
  "libfoo_smaps = [libfoo_header,
     ''Size:                  4 kB'' @ nl,
     ''Rss:                   4 kB'' @ nl,
     ''Pss:                 100 kB'' @ nl,
     ''Shared_Clean:         50 kB'' @ nl,
     ''Shared_Dirty:         20 kB'' @ nl,
     ''Private_Clean:        20 kB'' @ nl,
     ''Private_Dirty:        10 kB'' @ nl,
     ''Referenced:            4 kB'' @ nl]"

definition half_shared_smaps :: "string list" where
  "half_shared_smaps = [libfoo_header,
     ''Pss:                 100 kB'' @ nl,
     ''Shared_Clean:         50 kB'' @ nl,
     ''Shared_Dirty:         50 kB'' @ nl,
     ''Private_Clean:        20 kB'' @ nl,
     ''Private_Dirty:        10 kB'' @ nl]"

text \<open>
  The swappable pss as the specification writes it, over the rational numbers:
  \<open>sharing = (pss - privateClean - privateDirty) / (sharedClean + sharedDirty)\<close> when
  \<open>sharedClean + sharedDirty > 0\<close> and 0 otherwise, and \<open>sharing * sharedClean +
  privateClean\<close> for a swappable mapping with \<open>pss > 0\<close>, 0 in every other case.
\<close>

definition spec_swappable_pss :: "bool \<Rightarrow> rat \<Rightarrow> rat \<Rightarrow> rat \<Rightarrow> rat \<Rightarrow> rat \<Rightarrow> rat" where
  "spec_swappable_pss swappable p private_cl private_di shared_cl shared_di =
     (let sharing = (if shared_cl + shared_di > 0
                     then (p - private_cl - private_di) / (shared_cl + shared_di) else 0)
      in if swappable \<and> p > 0 then sharing * shared_cl + private_cl else 0)"

text \<open>
  A listing as a sequence of mapping blocks: a block is its header line and the lines
  that follow it up to the next header. \<open>listing_of\<close> is the stream of lines that the
  parser is given for the blocks.
\<close>

type_synonym smaps_block = "string \<times> string list"

definition listing_of :: "smaps_block list \<Rightarrow> string list" where
  "listing_of bs = concat (map (\<lambda>b. fst b # snd b) bs)"

text \<open>A header is well formed when \<^verbatim>\<open>sscanf\<close> reads both addresses from the line
  without its last character.\<close>

definition header_ok :: "string \<Rightarrow> bool" where
  "header_ok h = (fst (sscanf_header (butlast h)) = 2)"

text \<open>A line that is no statistic line and has the form the parser takes for the
  start of a new mapping: more than 30 characters, \<^verbatim>\<open>-\<close> at index 8 and a blank at
  index 17.\<close>

definition ends_block :: "string \<Rightarrow> bool" where
  "ends_block l = (\<not> is_stat_line (cstr l) \<and> looks_like_mapping (cstr l))"

text \<open>The pss of a block by its own lines: the value of the last of its \<^verbatim>\<open>Pss\<close>
  lines, and 0 for a block without such a line.\<close>

fun last_pss :: "string list \<Rightarrow> u32 option" where
  "last_pss [] = None"
| "last_pss (l # ls) =
     (case last_pss ls of Some t \<Rightarrow> Some t | None \<Rightarrow> sscanf_kB ''Pss:'' (cstr l))"

definition own_pss :: "smaps_block \<Rightarrow> u32" where
  "own_pss b = (case last_pss (snd b) of Some t \<Rightarrow> t | None \<Rightarrow> 0)"

text \<open>A regular block: the header is well formed, none of the block's own lines has
  the form of a new mapping, and the block has a \<^verbatim>\<open>Pss\<close> line.\<close>

definition block_ok :: "smaps_block \<Rightarrow> bool" where
  "block_ok b = (header_ok (cstr (fst b)) \<and> list_all (\<lambda>l. \<not> ends_block l) (snd b)
                 \<and> last_pss (snd b) \<noteq> None)"

text \<open>The sum of the field \<^verbatim>\<open>pss\<close> over the first \<open>n\<close> entries of the array.\<close>

definition pss_total :: "nat \<Rightarrow> stats_t list \<Rightarrow> u32" where
  "pss_total n st = sum_list (map stats_t.pss (take n st))"

text \<open>The same sum over the entries read as unsigned numbers, without wrap-around.\<close>

definition pss_count :: "nat \<Rightarrow> stats_t list \<Rightarrow> nat" where
  "pss_count n st = sum_list (map (\<lambda>s. unat (stats_t.pss s)) (take n st))"

text \<open>A listing of two mappings, the native heap and a Dalvik heap.\<close>

definition two_block_smaps :: "string list" where
  "two_block_smaps = [heap_header,
     ''Pss:                  12 kB'' @ nl,
     ''Private_Dirty:        12 kB'' @ nl,
     ''40000000-40001000 r-xp 00000000 b3:01 1234    /dev/ashmem/dalvik-heap'' @ nl,
     ''Pss:                 100 kB'' @ nl]"

text \<open>The same listing by its blocks; a listing whose second block has no \<^verbatim>\<open>Pss\<close>
  line; and a listing whose second header has addresses of four digits.\<close>

definition two_blocks :: "smaps_block list" where
  "two_blocks = [(heap_header, [''Pss:                  12 kB'' @ nl,
                                ''Private_Dirty:        12 kB'' @ nl]),
     (''40000000-40001000 r-xp 00000000 b3:01 1234    /dev/ashmem/dalvik-heap'' @ nl,
      [''Pss:                 100 kB'' @ nl])]"

definition no_pss_blocks :: "smaps_block list" where
  "no_pss_blocks = [(heap_header, [''Pss:                  12 kB'' @ nl]),
     (stack_header, [''Private_Dirty:         4 kB'' @ nl])]"

definition short_address_blocks :: "smaps_block list" where
  "short_address_blocks = [(heap_header, [''Pss:                   1 kB'' @ nl]),
     (''1000-2000 rw-p 00000000 00:00 0          [stack]'' @ nl,
      [''Pss:                   2 kB'' @ nl])]"

text \<open>A header that has both addresses and not the rest of the pattern; a listing that
  starts with a line that is no header; and a listing with the partial header.\<close>

definition partial_header :: string where
  "partial_header = ''40000000-40001000 r-xp (deleted) /system/lib/libfoo.so'' @ nl"

definition skipped_smaps :: "string list" where
  "skipped_smaps = [bad_header,
     ''Pss:                  12 kB'' @ nl, ''Private_Dirty:        12 kB'' @ nl,
     heap_header, ''Pss:                   3 kB'' @ nl]"

definition partial_smaps :: "string list" where
  "partial_smaps = [stack_header, ''Pss:                   7 kB'' @ nl,
     partial_header, ''Pss:                   5 kB'' @ nl]"

text \<open>The first run of decimal digits in a text, as a number; 0 when there is none.\<close>

definition first_number :: "string \<Rightarrow> int" where
  "first_number s = (case dropWhile (\<lambda>c. decval c = None) s of
       [] \<Rightarrow> 0
     | d # ds \<Rightarrow> int (fst (scan_num 10 decval 0 (d # ds))))"

text \<open>A line that starts with \<^verbatim>\<open>P\<close> and with none of the three keys, and a listing
  whose second line has fewer than 14 characters.\<close>

definition hugetlb_line :: string where
  "hugetlb_line = ''Private_Hugetlb:       7 kB'' @ nl"

definition short_smaps :: "string list" where
  "short_smaps = [''Private_Dirty:        12 kB'' @ nl, ''P'' @ nl]"

section \<open>Facts about the C library model\<close>

lemma NUL_notin_cstr: "NUL \<notin> set (cstr buf)"
  unfolding cstr_def by (induction buf) auto

lemma takeWhile_append_NUL:
  "takeWhile (\<lambda>c. c \<noteq> NUL) (chunk @ NUL # rest) = takeWhile (\<lambda>c. c \<noteq> NUL) chunk"
  by (induction chunk) auto

lemma cstr_store_line: "cstr (store_line chunk buf) = cstr chunk"
  unfolding cstr_def store_line_def by (rule takeWhile_append_NUL)

lemma cstr_idem: "cstr (cstr buf) = cstr buf"
  unfolding cstr_def by (rule takeWhile_idem)

lemma of_char_0_iff: "(of_char c :: nat) = 0 \<longleftrightarrow> c = NUL"
proof -
  have "(of_char c :: nat) = of_char NUL \<longleftrightarrow> c = NUL"
    by (rule of_char_eq_iff)
  then show ?thesis by (simp add: NUL_def)
qed

lemma cstr_chop: "cstr (chop buf) = butlast (cstr buf)"
proof (cases "cstr buf = []")
  case True
  then show ?thesis 
    unfolding chop_def strlen_def cstr_def
    by (cases buf) (auto split: if_splits)
next
  case False
  have "\<And>n. n < length (takeWhile P xs) \<Longrightarrow> \<not> P y \<Longrightarrow> takeWhile P (xs[n := y]) = take n (takeWhile P xs)" for P :: "'a \<Rightarrow> bool" and xs y
  proof (induction xs)
    case Nil then show ?case by simp
  next
    case (Cons a xs)
    then show ?case by (cases n) (auto split: if_splits)
  qed
  from this[of "strlen buf - 1" "\<lambda>c. c \<noteq> NUL" buf NUL] False
  show ?thesis
    unfolding chop_def strlen_def cstr_def
    by (simp add: butlast_conv_take)
qed

lemma strstr_prefix: "strstr s pat = Some 0 \<longleftrightarrow> prefix pat s"
  by (cases s) auto

lemma strncmp_refl_take: "take n s1 = take n s2 \<Longrightarrow> strncmp s1 s2 n = 0"
  by (induction s1 s2 n rule: strncmp.induct) auto

lemma of_char_diff: "c1 \<noteq> c2 \<Longrightarrow> int (of_char c1) - int (of_char c2) \<noteq> 0"
  by simp

lemma strncmp_0_take:
  "NUL \<notin> set s1 \<Longrightarrow> NUL \<notin> set s2 \<Longrightarrow> strncmp s1 s2 n = 0 \<Longrightarrow> take n s1 = take n s2"
proof (induction s1 s2 n rule: strncmp.induct)
  case (3 c2 s2 n)
  then show ?case by (auto simp: of_char_0_iff)
next
  case (4 c1 s1 n)
  then show ?case by (auto simp: of_char_0_iff)
qed (auto split: if_splits)

lemma strncmp_numeral:
  "strncmp [] [] (numeral k) = 0"
  "strncmp [] (c2 # s2) (numeral k) = - int (of_char c2)"
  "strncmp (c1 # s1) [] (numeral k) = int (of_char c1)"
  "strncmp (c1 # s1) (c2 # s2) (numeral k) =
     (if c1 = c2 then strncmp s1 s2 (pred_numeral k) else int (of_char c1) - int (of_char c2))"
  by (simp_all add: numeral_eq_Suc)

text \<open>The definitions that evaluate the scanning functions and one block of the parser
  on a given text.\<close>

lemmas scan_defs = conv_x_def conv_d_def conv_s_def lit_def scan_sign_def skip_0x_def
  hexval_def decval_def isspace_def

lemmas eval_defs = init_locals_def nl_def store_line_def chop_def
      strlen_def cstr_def NUL_def sscanf_header_def sscanf_header_tail_def
      scan_defs Let_def block_def begin_block_def parse_header_def classify_def
      parse_stat_def sscanf_kB_def looks_like_mapping_def end_block_def compute_swappable_def
      add_to_def heap_defs zero_stats_def strncmp_numeral

text \<open>With these rules the simplifier evaluates the argument of a \<open>case\<close> or a
  \<open>let\<close> before it enters the branches.\<close>

lemmas eval_congs = option.case_cong_weak prod.case_cong_weak list.case_cong_weak let_weak_cong

lemma digit_plain:
  "decval c \<noteq> None \<Longrightarrow> \<not> isspace c \<and> c \<noteq> CHR ''-'' \<and> c \<noteq> CHR ''+'' \<and> c \<noteq> NUL"
  by (auto simp: decval_def isspace_def NUL_def Let_def split: if_splits)

lemma cstr_skip_to_digit:
  "cstr (skip_to_digit c) = dropWhile (\<lambda>x. decval x = None) (cstr c)"
  unfolding cstr_def skip_to_digit_def
proof (induction c)
  case Nil
  show ?case by simp
next
  case (Cons x xs)
  then show ?case using digit_plain [of x] by auto
qed

lemma atoi_digits:
  "t = [] \<or> decval (hd t) \<noteq> None \<Longrightarrow>
     atoi t = (case t of [] \<Rightarrow> 0 | d # ds \<Rightarrow> word_of_int (int (fst (scan_num 10 decval 0 (d # ds)))))"
proof (cases t)
  case Nil
  then show ?thesis
    by (simp add: atoi_def conv_d_def scan_sign_def)
next
  case (Cons d ds)
  assume "t = [] \<or> decval (hd t) \<noteq> None"
  with Cons have "decval d \<noteq> None" by simp
  with digit_plain [of d] Cons show ?thesis
    by (auto simp: atoi_def conv_d_def scan_sign_def split: prod.splits)
qed

lemma atoi_at_digit:
  "atoi (dropWhile (\<lambda>x. decval x = None) s) = word_of_int (first_number s)"
proof -
  define t where "t = dropWhile (\<lambda>x. decval x = None) s"
  have "t = [] \<or> decval (hd t) \<noteq> None"
    unfolding t_def using hd_dropWhile [of "\<lambda>x. decval x = None" s] by blast
  from atoi_digits [OF this]
  have a: "atoi t = (case t of [] \<Rightarrow> 0
                     | d # ds \<Rightarrow> word_of_int (int (fst (scan_num 10 decval 0 (d # ds)))))" .
  have f: "first_number s = (case t of [] \<Rightarrow> 0
                     | d # ds \<Rightarrow> int (fst (scan_num 10 decval 0 (d # ds))))"
    by (simp add: first_number_def t_def)
  have "atoi t = word_of_int (first_number s)"
    unfolding a f by (cases t) simp_all
  then show ?thesis by (simp add: t_def)
qed

lemma atoi_skip: "atoi (cstr (skip_to_digit c)) = word_of_int (first_number (cstr c))"
  by (simp add: cstr_skip_to_digit atoi_at_digit)

lemma takeWhile_drop_within:
  "n \<le> length (takeWhile P xs) \<Longrightarrow> takeWhile P (drop n xs) = drop n (takeWhile P xs)"
proof (induction xs arbitrary: n)
  case Nil
  show ?case by simp
next
  case (Cons x xs)
  then show ?case by (cases n) (auto split: if_splits)
qed

lemma cstr_drop_within: "n \<le> strlen buf \<Longrightarrow> cstr (drop n buf) = drop n (cstr buf)"
  unfolding cstr_def strlen_def by (rule takeWhile_drop_within)

lemma private_prefixes_differ:
  "strncmp (cstr buf) ''Private_Clean:'' 14 \<noteq> 0 \<or> strncmp (cstr buf) ''Private_Dirty:'' 14 \<noteq> 0"
proof (rule ccontr)
  assume "\<not> ?thesis"
  then have z: "strncmp (cstr buf) ''Private_Clean:'' 14 = 0" "strncmp (cstr buf) ''Private_Dirty:'' 14 = 0"
    by simp_all
  have n: "NUL \<notin> set ''Private_Clean:''" "NUL \<notin> set ''Private_Dirty:''"
    by (simp_all add: NUL_def)
  from strncmp_0_take [OF NUL_notin_cstr n(1) z(1)] strncmp_0_take [OF NUL_notin_cstr n(2) z(2)]
  have "take 14 ''Private_Clean:'' = take 14 ''Private_Dirty:''" by simp
  then show False by simp
qed

lemma sum_list_map_update:
  fixes f :: "'a \<Rightarrow> 'b::ab_group_add"
  shows "k < length xs \<Longrightarrow> sum_list (map f (xs[k := x])) = sum_list (map f xs) - f (xs ! k) + f x"
proof (induction xs arbitrary: k)
  case Nil
  then show ?case by simp
next
  case (Cons a xs)
  then show ?case by (cases k) (simp_all add: algebra_simps)
qed

section \<open>Facts about the parser\<close>

lemma parse_stat_None: "parse_stat s v = None \<longleftrightarrow> \<not> is_stat_line s"
  by (simp add: parse_stat_def is_stat_line_def stat_keys_def split: option.splits)

lemma parse_stat_frame:
  "parse_stat s v = Some v' \<Longrightarrow>
     stats v' = stats v \<and> skip v' = skip v \<and> whichHeap v' = whichHeap v \<and> subHeap v' = subHeap v
     \<and> is_swappable v' = is_swappable v \<and> done_v v' = done_v v \<and> line v' = line v"
  by (auto simp: parse_stat_def split: option.splits)

lemma stat_loop_frame:
  "stat_loop v fp = (v', fp') \<Longrightarrow>
     stats v' = stats v \<and> skip v' = skip v \<and> whichHeap v' = whichHeap v \<and> subHeap v' = subHeap v
     \<and> is_swappable v' = is_swappable v"
proof (induction fp arbitrary: v)
  case Nil
  then show ?case by auto
next
  case (Cons chunk fp)
  let ?v1 = "v\<lparr>line := store_line chunk (line v)\<rparr>"
  show ?case
  proof (cases "parse_stat (cstr (store_line chunk (line v))) ?v1")
    case None
    then show ?thesis
      using Cons.prems Cons.IH [of ?v1]
      by (auto simp: Let_def split: if_splits)
  next
    case (Some v2)
    then show ?thesis
      using Cons.prems Cons.IH [of v2] parse_stat_frame [OF Some]
      by (auto simp: Let_def)
  qed
qed

lemma stat_loop_rest: "snd (stat_loop v fp) = lines_after_block fp"
proof (induction fp arbitrary: v)
  case Nil
  show ?case by simp
next
  case (Cons chunk fp)
  let ?v1 = "v\<lparr>line := store_line chunk (line v)\<rparr>"
  show ?case
  proof (cases "parse_stat (cstr (store_line chunk (line v))) ?v1")
    case None
    then show ?thesis
      using Cons.IH [of ?v1] parse_stat_None [of "cstr chunk" ?v1]
      by (auto simp: Let_def cstr_store_line)
  next
    case (Some v2)
    then show ?thesis
      using Cons.IH [of v2] parse_stat_None [of "cstr chunk" ?v1]
      by (auto simp: Let_def cstr_store_line)
  qed
qed

lemma stat_loop_stops:
  "done_v (fst (stat_loop v fp)) \<or> looks_like_mapping (cstr (line (fst (stat_loop v fp))))"
proof (induction fp arbitrary: v)
  case Nil
  show ?case by simp
next
  case (Cons chunk fp)
  let ?v1 = "v\<lparr>line := store_line chunk (line v)\<rparr>"
  show ?case
  proof (cases "parse_stat (cstr (store_line chunk (line v))) ?v1")
    case None
    then show ?thesis
      using Cons.IH [of ?v1] by (auto simp: Let_def)
  next
    case (Some v2)
    then show ?thesis
      using Cons.IH [of v2] by (auto simp: Let_def)
  qed
qed

lemma parse_header_skip:
  "fst (sscanf_header (cstr (line v))) \<noteq> 2 \<Longrightarrow>
     skip (parse_header v) \<and> stats (parse_header v) = stats v"
  by (auto simp: parse_header_def Let_def split: prod.splits)

lemma parse_header_name:
  assumes "mapping_name (line v) (name_pos v) = Some name"
  shows "\<exists>v2. parse_header v = classify name v2 \<and> stats v2 = stats v \<and> skip v2 = skip v
           \<and> is_swappable v2 = is_swappable v \<and> whichHeap v2 = whichHeap v
           \<and> subHeap v2 = subHeap v \<and> pss v2 = pss v"
proof (cases "sscanf_header (cstr (line v))")
  case (fields ret st en np)
  with assms have ret: "ret = 2"
    by (auto simp: mapping_name_def split: if_splits)
  show ?thesis
    using assms fields ret
    by (auto simp: parse_header_def mapping_name_def Let_def intro!: exI)
qed

lemma classify_heap: "prefix ''[heap]'' name \<Longrightarrow> classify name v = v\<lparr>whichHeap := HEAP_NATIVE\<rparr>"
  by (simp add: classify_def strstr_prefix)

lemma block_inv_upd [simp]:
  "block_inv (v\<lparr>whichHeap := h\<rparr>) = (h < NUM_EXCLUSIVE_HEAP
     \<and> (h = HEAP_DALVIK \<or> h = HEAP_DALVIK_OTHER \<longrightarrow> NUM_EXCLUSIVE_HEAP \<le> subHeap v))"
  "block_inv (v\<lparr>subHeap := sh\<rparr>) = (whichHeap v < NUM_EXCLUSIVE_HEAP
     \<and> (whichHeap v = HEAP_DALVIK \<or> whichHeap v = HEAP_DALVIK_OTHER \<longrightarrow> NUM_EXCLUSIVE_HEAP \<le> sh))"
  "block_inv (v\<lparr>is_swappable := b\<rparr>) = block_inv v"
  "block_inv (v\<lparr>skip := b\<rparr>) = block_inv v"
  "block_inv (v\<lparr>name_pos := n\<rparr>) = block_inv v"
  "block_inv (v\<lparr>start := a\<rparr>) = block_inv v"
  "block_inv (v\<lparr>end_v := a\<rparr>) = block_inv v"
  by (simp_all add: block_inv_def)

lemma classify_leaves:
  assumes "\<And>h. h \<in> {HEAP_NATIVE, HEAP_CURSOR, HEAP_ASHMEM, HEAP_STACK, HEAP_UNKNOWN_DEV,
                       HEAP_UNKNOWN, HEAP_UNKNOWN_MAP, HEAP_SO} \<Longrightarrow> P (v\<lparr>whichHeap := h\<rparr>)"
    and "\<And>h. h \<in> {HEAP_SO, HEAP_JAR, HEAP_APK, HEAP_TTF, HEAP_DEX, HEAP_OAT, HEAP_ART}
               \<Longrightarrow> P (v\<lparr>whichHeap := h, is_swappable := True\<rparr>)"
    and "\<And>s. s \<in> {HEAP_DALVIK_LINEARALLOC, HEAP_DALVIK_ACCOUNTING, HEAP_DALVIK_CODE_CACHE}
               \<Longrightarrow> P (v\<lparr>whichHeap := HEAP_DALVIK_OTHER, subHeap := s\<rparr>)"
    and "\<And>s. s \<in> {HEAP_DALVIK_LARGE, HEAP_DALVIK_NORMAL}
               \<Longrightarrow> P (v\<lparr>whichHeap := HEAP_DALVIK, subHeap := s\<rparr>)"
    and "P v"
  shows "P (classify name v)"
  unfolding classify_def Let_def
  using assms by simp

lemma classify_range:
  assumes "whichHeap v = HEAP_UNKNOWN" "subHeap v = HEAP_UNKNOWN"
  shows "block_inv (classify name v)"
  by (rule classify_leaves) (use assms in \<open>auto simp: block_inv_def heap_defs\<close>)

lemma classify_updates:
  "\<exists>h s b. classify name v = v\<lparr>whichHeap := h, subHeap := s, is_swappable := b\<rparr>"
proof (rule classify_leaves)
  fix h
  have "v\<lparr>whichHeap := h\<rparr> = v\<lparr>whichHeap := h, subHeap := subHeap v, is_swappable := is_swappable v\<rparr>"
    by simp
  then show "\<exists>h' s b. v\<lparr>whichHeap := h\<rparr> = v\<lparr>whichHeap := h', subHeap := s, is_swappable := b\<rparr>"
    by blast
  have "v\<lparr>whichHeap := h, is_swappable := True\<rparr>
      = v\<lparr>whichHeap := h, subHeap := subHeap v, is_swappable := True\<rparr>"
    by simp
  then show "\<exists>h' s b. v\<lparr>whichHeap := h, is_swappable := True\<rparr>
      = v\<lparr>whichHeap := h', subHeap := s, is_swappable := b\<rparr>"
    by blast
next
  fix s
  have "v\<lparr>whichHeap := h, subHeap := s\<rparr>
      = v\<lparr>whichHeap := h, subHeap := s, is_swappable := is_swappable v\<rparr>" for h
    by simp
  then show "\<exists>h' s' b. v\<lparr>whichHeap := HEAP_DALVIK_OTHER, subHeap := s\<rparr>
      = v\<lparr>whichHeap := h', subHeap := s', is_swappable := b\<rparr>"
    and "\<exists>h' s' b. v\<lparr>whichHeap := HEAP_DALVIK, subHeap := s\<rparr>
      = v\<lparr>whichHeap := h', subHeap := s', is_swappable := b\<rparr>"
    by blast+
next
  have "v = v\<lparr>whichHeap := whichHeap v, subHeap := subHeap v, is_swappable := is_swappable v\<rparr>"
    by simp
  then show "\<exists>h s b. v = v\<lparr>whichHeap := h, subHeap := s, is_swappable := b\<rparr>"
    by blast
qed

lemma parse_header_updates:
  "\<exists>a b n k h s w. parse_header v =
     v\<lparr>start := a, end_v := b, name_pos := n, skip := k,
       whichHeap := h, subHeap := s, is_swappable := w\<rparr>"
proof (cases "sscanf_header (cstr (line v))")
  case (fields ret st en np)
  define a where "a = (case st of Some a \<Rightarrow> a | None \<Rightarrow> start v)"
  define b where "b = (case en of Some b \<Rightarrow> b | None \<Rightarrow> end_v v)"
  define n where "n = (case np of Some n \<Rightarrow> n | None \<Rightarrow> name_pos v)"
  show ?thesis
  proof (cases "ret = 2")
    case False
    have "parse_header v = v\<lparr>start := a, end_v := b, name_pos := n, skip := True,
       whichHeap := whichHeap v, subHeap := subHeap v, is_swappable := is_swappable v\<rparr>"
      using fields False by (simp add: parse_header_def Let_def a_def b_def n_def)
    then show ?thesis by blast
  next
    case True
    define m where "m = n + length (takeWhile isspace (drop n (line v)))"
    define v2 where "v2 = v\<lparr>start := a, end_v := b, name_pos := m\<rparr>"
    have p: "parse_header v = classify (cstr (drop m (line v))) v2"
      using fields True by (simp add: parse_header_def Let_def a_def b_def n_def m_def v2_def)
    from classify_updates [of "cstr (drop m (line v))" v2] obtain h s w where
      "classify (cstr (drop m (line v))) v2 = v2\<lparr>whichHeap := h, subHeap := s, is_swappable := w\<rparr>"
      by blast
    with p have "parse_header v = v\<lparr>start := a, end_v := b, name_pos := m, skip := skip v,
       whichHeap := h, subHeap := s, is_swappable := w\<rparr>"
      by (simp add: v2_def)
    then show ?thesis by blast
  qed
qed

lemma parse_header_range:
  assumes "whichHeap v = HEAP_UNKNOWN" "subHeap v = HEAP_UNKNOWN"
  shows "block_inv (parse_header v)"
proof (cases "sscanf_header (cstr (line v))")
  case (fields ret st en np)
  show ?thesis
  proof (cases "ret = 2")
    case True
    then show ?thesis
      using fields assms classify_range
      by (simp add: parse_header_def Let_def)
  next
    case False
    then show ?thesis
      using fields assms by (simp add: parse_header_def Let_def block_inv_def heap_defs)
  qed
qed

lemma parse_header_keeps:
  "stats (parse_header v) = stats v \<and> pss (parse_header v) = pss v
   \<and> shared_clean (parse_header v) = shared_clean v \<and> shared_dirty (parse_header v) = shared_dirty v
   \<and> private_clean (parse_header v) = private_clean v \<and> private_dirty (parse_header v) = private_dirty v
   \<and> size_v (parse_header v) = size_v v \<and> resident (parse_header v) = resident v
   \<and> referenced (parse_header v) = referenced v \<and> done_v (parse_header v) = done_v v
   \<and> line (parse_header v) = line v"
proof -
  from parse_header_updates [of v] obtain a b n k h s w where
    "parse_header v = v\<lparr>start := a, end_v := b, name_pos := n, skip := k,
       whichHeap := h, subHeap := s, is_swappable := w\<rparr>"
    by blast
  then show ?thesis by simp
qed

lemma parse_header_ok:
  "fst (sscanf_header (cstr (line v))) = 2 \<Longrightarrow> skip (parse_header v) = skip v"
proof (cases "sscanf_header (cstr (line v))")
  case (fields ret st en np)
  assume "fst (sscanf_header (cstr (line v))) = 2"
  with fields have ret: "ret = 2" by simp
  define v2 where "v2 = v\<lparr>start := (case st of Some a \<Rightarrow> a | None \<Rightarrow> start v),
      end_v := (case en of Some b \<Rightarrow> b | None \<Rightarrow> end_v v),
      name_pos := (case np of Some n \<Rightarrow> n | None \<Rightarrow> name_pos v)
                  + length (takeWhile isspace
                       (drop (case np of Some n \<Rightarrow> n | None \<Rightarrow> name_pos v) (line v)))\<rparr>"
  have p: "parse_header v = classify (cstr (drop (name_pos v2) (line v2))) v2"
    using fields ret by (simp add: parse_header_def Let_def v2_def)
  from classify_updates [of "cstr (drop (name_pos v2) (line v2))" v2] obtain h s w where
    "classify (cstr (drop (name_pos v2) (line v2))) v2 = v2\<lparr>whichHeap := h, subHeap := s, is_swappable := w\<rparr>"
    by blast
  with p show ?thesis by (simp add: v2_def)
qed

lemma compute_swappable_keeps:
  "stats (compute_swappable v) = stats v \<and> pss (compute_swappable v) = pss v
   \<and> shared_clean (compute_swappable v) = shared_clean v \<and> shared_dirty (compute_swappable v) = shared_dirty v
   \<and> private_clean (compute_swappable v) = private_clean v \<and> private_dirty (compute_swappable v) = private_dirty v
   \<and> size_v (compute_swappable v) = size_v v \<and> resident (compute_swappable v) = resident v
   \<and> referenced (compute_swappable v) = referenced v
   \<and> whichHeap (compute_swappable v) = whichHeap v \<and> subHeap (compute_swappable v) = subHeap v"
  by (simp add: compute_swappable_def Let_def)

lemma end_block_keeps:
  "pss (end_block v) = pss v
   \<and> shared_clean (end_block v) = shared_clean v \<and> shared_dirty (end_block v) = shared_dirty v
   \<and> private_clean (end_block v) = private_clean v \<and> private_dirty (end_block v) = private_dirty v
   \<and> size_v (end_block v) = size_v v \<and> resident (end_block v) = resident v
   \<and> referenced (end_block v) = referenced v
   \<and> whichHeap (end_block v) = whichHeap v \<and> subHeap (end_block v) = subHeap v"
  by (simp add: end_block_def add_to_def Let_def compute_swappable_keeps)

text \<open>What a block that is not skipped adds to the entry of its heap.\<close>

lemma end_block_entry:
  assumes "\<not> skip v" "block_inv v" "length (stats v) = NUM_HEAP"
  shows "stats (end_block v) ! whichHeap v =
     (stats v ! whichHeap v)
       \<lparr>stats_t.pss := stats_t.pss (stats v ! whichHeap v) + pss v,
        swappablePss := swappablePss (stats v ! whichHeap v) + swappable_pss (compute_swappable v),
        privateDirty := privateDirty (stats v ! whichHeap v) + private_dirty v,
        sharedDirty := sharedDirty (stats v ! whichHeap v) + shared_dirty v,
        privateClean := privateClean (stats v ! whichHeap v) + private_clean v,
        sharedClean := sharedClean (stats v ! whichHeap v) + shared_clean v\<rparr>"
proof -
  let ?c = "compute_swappable v"
  have c: "whichHeap ?c = whichHeap v" "subHeap ?c = subHeap v" "stats ?c = stats v"
    "pss ?c = pss v" "private_dirty ?c = private_dirty v" "shared_dirty ?c = shared_dirty v"
    "private_clean ?c = private_clean v" "shared_clean ?c = shared_clean v"
    using compute_swappable_keeps [of v] by simp_all
  have lt: "whichHeap v < length (stats v)"
    using assms(2,3) by (simp add: heap_defs block_inv_def)
  show ?thesis
  proof (cases "whichHeap v = HEAP_DALVIK \<or> whichHeap v = HEAP_DALVIK_OTHER")
    case True
    with assms(2) have "subHeap v \<noteq> whichHeap v" by (auto simp: block_inv_def)
    then show ?thesis
      using assms(1) True c lt
      by (simp add: end_block_def Let_def add_to_def)
  next
    case False
    then show ?thesis
      using assms(1) c lt
      by (simp add: end_block_def Let_def add_to_def)
  qed
qed

lemma parse_stat_other_key:
  "parse_stat s v = Some v' \<Longrightarrow>
     (sscanf_kB ''Size:'' s = None \<longrightarrow> size_v v' = size_v v)
   \<and> (sscanf_kB ''Rss:'' s = None \<longrightarrow> resident v' = resident v)
   \<and> (sscanf_kB ''Pss:'' s = None \<longrightarrow> pss v' = pss v)
   \<and> (sscanf_kB ''Shared_Clean:'' s = None \<longrightarrow> shared_clean v' = shared_clean v)
   \<and> (sscanf_kB ''Shared_Dirty:'' s = None \<longrightarrow> shared_dirty v' = shared_dirty v)
   \<and> (sscanf_kB ''Private_Clean:'' s = None \<longrightarrow> private_clean v' = private_clean v)
   \<and> (sscanf_kB ''Private_Dirty:'' s = None \<longrightarrow> private_dirty v' = private_dirty v)
   \<and> (sscanf_kB ''Referenced:'' s = None \<longrightarrow> referenced v' = referenced v)"
  by (auto simp: parse_stat_def split: option.splits)

lemma stat_loop_carries:
  "(\<not> key_in_block ''Size:'' fp \<longrightarrow> size_v (fst (stat_loop v fp)) = size_v v)
   \<and> (\<not> key_in_block ''Rss:'' fp \<longrightarrow> resident (fst (stat_loop v fp)) = resident v)
   \<and> (\<not> key_in_block ''Pss:'' fp \<longrightarrow> pss (fst (stat_loop v fp)) = pss v)
   \<and> (\<not> key_in_block ''Shared_Clean:'' fp \<longrightarrow> shared_clean (fst (stat_loop v fp)) = shared_clean v)
   \<and> (\<not> key_in_block ''Shared_Dirty:'' fp \<longrightarrow> shared_dirty (fst (stat_loop v fp)) = shared_dirty v)
   \<and> (\<not> key_in_block ''Private_Clean:'' fp \<longrightarrow> private_clean (fst (stat_loop v fp)) = private_clean v)
   \<and> (\<not> key_in_block ''Private_Dirty:'' fp \<longrightarrow> private_dirty (fst (stat_loop v fp)) = private_dirty v)
   \<and> (\<not> key_in_block ''Referenced:'' fp \<longrightarrow> referenced (fst (stat_loop v fp)) = referenced v)"
proof (induction fp arbitrary: v)
  case Nil
  show ?case by simp
next
  case (Cons chunk fp)
  let ?v1 = "v\<lparr>line := store_line chunk (line v)\<rparr>"
  show ?case
  proof (cases "parse_stat (cstr (store_line chunk (line v))) ?v1")
    case None
    then show ?thesis
      using Cons.IH [of ?v1] parse_stat_None [of "cstr chunk" ?v1]
      by (simp add: Let_def cstr_store_line)
  next
    case (Some v2)
    then have st: "is_stat_line (cstr chunk)"
      using parse_stat_None [of "cstr chunk" ?v1] by (simp add: cstr_store_line)
    show ?thesis
      using Some st Cons.IH [of v2] parse_stat_other_key [OF Some]
      by (simp add: Let_def cstr_store_line)
  qed
qed

lemma block_summary:
  assumes "fst (sscanf_header (cstr (chop (line v)))) = 2" "length (stats v) = NUM_HEAP"
  obtains v1 v3 fp' where
    "v1 = parse_header ((begin_block v)\<lparr>line := chop (line v)\<rparr>)"
    "stat_loop v1 fp = (v3, fp')"
    "block (begin_block v) fp = (end_block v3, fp')"
    "\<not> skip v3" "block_inv v3" "stats v3 = stats v"
proof -
  let ?v0 = "(begin_block v)\<lparr>line := chop (line v)\<rparr>"
  define v1 where "v1 = parse_header ?v0"
  obtain v3 fp' where r: "stat_loop v1 fp = (v3, fp')"
    by (cases "stat_loop v1 fp")
  have "fst (sscanf_header (cstr (line ?v0))) = 2"
    using assms(1) by simp
  from parse_header_ok [OF this] have s1: "\<not> skip v1"
    by (simp add: v1_def begin_block_def)
  have i1: "block_inv v1"
    unfolding v1_def by (rule parse_header_range) (simp_all add: begin_block_def)
  have st1: "stats v1 = stats v"
    using parse_header_keeps [of ?v0] by (simp add: v1_def begin_block_def)
  from stat_loop_frame [OF r] s1 i1 st1
  have "\<not> skip v3" "block_inv v3" "stats v3 = stats v"
    by (simp_all add: block_inv_def)
  moreover have "block (begin_block v) fp = (end_block v3, fp')"
    using r by (simp add: block_def Let_def v1_def begin_block_def)
  ultimately show ?thesis
    using that [of v1 v3 fp'] r v1_def by blast
qed

lemma heap_name: "mapping_name (chop (line heap_locals)) (name_pos heap_locals) = Some ''[heap]''"
  by (simp add: heap_locals_def init_locals_def heap_header_def nl_def store_line_def chop_def
      strlen_def cstr_def NUL_def mapping_name_def sscanf_header_def sscanf_header_tail_def
      scan_defs Let_def)

lemma heap_eval: "pss (fst (block (begin_block heap_locals) heap_stats)) = 12"
  by (simp add: heap_locals_def init_locals_def heap_header_def heap_stats_def nl_def store_line_def chop_def
      strlen_def cstr_def NUL_def sscanf_header_def sscanf_header_tail_def
      scan_defs Let_def block_def begin_block_def parse_header_def classify_def
      parse_stat_def sscanf_kB_def looks_like_mapping_def end_block_def compute_swappable_def add_to_def heap_defs zero_stats_def)

section \<open>Blocks of the listing\<close>

text \<open>
  C9: a block whose header is read and whose name begins with \<^verbatim>\<open>[heap]\<close>, in any
  state \<open>v\<close> of the parser (whatever the statistic variables hold from earlier blocks)
  and followed by any lines \<open>fp\<close>: it is classified \<^verbatim>\<open>HEAP_NATIVE\<close>, the
  \<^verbatim>\<open>swappable_pss\<close> it adds is 0, so the total \<^verbatim>\<open>swappablePss\<close> of the native heap
  stays as it was; its pss goes to the native heap and no other entry of the array
  changes.
\<close>

theorem heap_block_native:
  assumes "mapping_name (chop (line v)) (name_pos v) = Some name"
    and "prefix ''[heap]'' name"
    and "length (stats v) = NUM_HEAP"
  shows "whichHeap (fst (block (begin_block v) fp)) = HEAP_NATIVE
       \<and> swappable_pss (fst (block (begin_block v) fp)) = 0
       \<and> swappablePss (stats (fst (block (begin_block v) fp)) ! HEAP_NATIVE)
           = swappablePss (stats v ! HEAP_NATIVE)
       \<and> stats_t.pss (stats (fst (block (begin_block v) fp)) ! HEAP_NATIVE)
           = stats_t.pss (stats v ! HEAP_NATIVE) + pss (fst (block (begin_block v) fp))
       \<and> list_all (\<lambda>h. h = HEAP_NATIVE \<or> stats (fst (block (begin_block v) fp)) ! h = stats v ! h)
           [0 ..< NUM_HEAP]"
proof -
  let ?v0 = "(begin_block v)\<lparr>line := chop (line (begin_block v))\<rparr>"
  have "mapping_name (line ?v0) (name_pos ?v0) = Some name"
    using assms(1) by (simp add: begin_block_def)
  from parse_header_name [OF this] obtain v2 where
    v2: "parse_header ?v0 = classify name v2" "stats v2 = stats ?v0" "skip v2 = skip ?v0"
        "is_swappable v2 = is_swappable ?v0"
    by blast
  define v1 where "v1 = parse_header ?v0"
  have v1: "whichHeap v1 = HEAP_NATIVE" "\<not> skip v1" "\<not> is_swappable v1" "stats v1 = stats v"
    using v2 assms(2) by (simp_all add: v1_def classify_heap begin_block_def)
  obtain v3 fp' where r: "stat_loop v1 fp = (v3, fp')"
    by (cases "stat_loop v1 fp")
  from stat_loop_frame [OF r] v1
  have v3: "whichHeap v3 = HEAP_NATIVE" "\<not> skip v3" "\<not> is_swappable v3" "stats v3 = stats v"
    by simp_all
  have b: "fst (block (begin_block v) fp) = end_block v3"
    using r by (simp add: block_def Let_def v1_def)
  have e: "end_block v3 = add_to HEAP_NATIVE (v3\<lparr>swappable_pss := 0\<rparr>)"
    using v3 by (simp add: end_block_def compute_swappable_def Let_def add_to_def heap_defs)
  have len: "HEAP_NATIVE < length (stats v)"
    using assms(3) by (simp add: heap_defs)
  show ?thesis
    unfolding b e using v3 len assms(3)
    by (simp add: add_to_def list_all_iff nth_list_update)
qed

theorem heap_block_native_witness:
  "mapping_name (chop (line heap_locals)) (name_pos heap_locals) = Some ''[heap]''
   \<and> prefix ''[heap]'' ''[heap]''
   \<and> length (stats heap_locals) = NUM_HEAP
   \<and> whichHeap (fst (block (begin_block heap_locals) heap_stats)) = HEAP_NATIVE
   \<and> swappable_pss (fst (block (begin_block heap_locals) heap_stats)) = 0
   \<and> swappablePss (stats (fst (block (begin_block heap_locals) heap_stats)) ! HEAP_NATIVE) = 0
   \<and> stats_t.pss (stats (fst (block (begin_block heap_locals) heap_stats)) ! HEAP_NATIVE) = 12"
proof -
  have p: "prefix ''[heap]'' ''[heap]''" by simp
  have l: "length (stats heap_locals) = NUM_HEAP"
    by (simp add: heap_locals_def init_locals_def)
  have z: "stats heap_locals ! HEAP_NATIVE = zero_stats"
    by (simp add: heap_locals_def init_locals_def heap_defs)
  show ?thesis
    using heap_block_native [OF heap_name p l, of heap_stats] heap_name l heap_eval z
    by (simp add: zero_stats_def)
qed

lemma skipped_run:
  "read_mapinfo [] 0 skipped_smaps (replicate NUM_HEAP zero_stats) =
     (replicate NUM_HEAP zero_stats)
       [HEAP_NATIVE := \<lparr>stats_t.pss = 3, swappablePss = 0, privateDirty = 12,
                          sharedDirty = 0, privateClean = 0, sharedClean = 0\<rparr>]"
  by (simp add: skipped_smaps_def bad_header_def heap_header_def read_mapinfo_def fgets_def mapinfo_loop.simps
      eval_defs cong: eval_congs)

lemma partial_run:
  "read_mapinfo [] 0 partial_smaps (replicate NUM_HEAP zero_stats) =
     (replicate NUM_HEAP zero_stats)
       [HEAP_STACK := \<lparr>stats_t.pss = 7, swappablePss = 0, privateDirty = 0,
                          sharedDirty = 0, privateClean = 0, sharedClean = 0\<rparr>,
        HEAP_SO := \<lparr>stats_t.pss = 5, swappablePss = 0, privateDirty = 0,
                          sharedDirty = 0, privateClean = 0, sharedClean = 0\<rparr>]"
  by (simp add: partial_smaps_def partial_header_def stack_header_def read_mapinfo_def fgets_def mapinfo_loop.simps
      eval_defs f32_def cong: eval_congs)

lemma partial_scan:
  "sscanf_header (butlast (cstr partial_header)) = (2, Some 0x40000000, Some 0x40001000, None)
   \<and> looks_like_mapping (cstr partial_header)"
  by (simp add: partial_header_def eval_defs cong: eval_congs)

text \<open>
  C5, as the code has it. A skipped block adds nothing when it ends, but what its
  lines set stays in the variables of the parser: after a first line that is no header
  and a line \<^verbatim>\<open>Private_Dirty: 12 kB\<close>, the block of the native heap, which has no
  such line, adds 12 to \<^verbatim>\<open>privateDirty\<close> of \<^verbatim>\<open>HEAP_NATIVE\<close>. And the test of the code
  is for the two addresses only: a header that has them and not the rest of the
  pattern is not skipped, its block adds its pss of 5 to \<^verbatim>\<open>HEAP_SO\<close>.
\<close>

theorem skipped_block_counterexample:
  "fst (sscanf_header (butlast (cstr (skipped_smaps ! 0)))) \<noteq> 2
   \<and> sscanf_kB ''Private_Dirty:'' (cstr (skipped_smaps ! 2)) = Some 12
   \<and> \<not> key_in_block ''Private_Dirty:'' (drop 4 skipped_smaps)
   \<and> privateDirty (read_mapinfo [] 0 skipped_smaps (replicate NUM_HEAP zero_stats) ! HEAP_NATIVE) = 12
   \<and> fst (sscanf_header (butlast (cstr (partial_smaps ! 2)))) = 2
   \<and> sscanf_header_tail (butlast (cstr (partial_smaps ! 2)))
        (drop 17 (butlast (cstr (partial_smaps ! 2)))) = None
   \<and> stats_t.pss (read_mapinfo [] 0 partial_smaps (replicate NUM_HEAP zero_stats) ! HEAP_SO) = 5"
proof -
  have a: "fst (sscanf_header (butlast (cstr (skipped_smaps ! 0)))) \<noteq> 2"
    by (simp add: skipped_smaps_def bad_header_def eval_defs cong: eval_congs)
  have b: "sscanf_kB ''Private_Dirty:'' (cstr (skipped_smaps ! 2)) = Some 12"
    by (simp add: skipped_smaps_def eval_defs cong: eval_congs)
  have c: "\<not> key_in_block ''Private_Dirty:'' (drop 4 skipped_smaps)"
    by (simp add: skipped_smaps_def is_stat_line_def stat_keys_def eval_defs cong: eval_congs)
  have d: "fst (sscanf_header (butlast (cstr (partial_smaps ! 2)))) = 2"
    using partial_scan by (simp add: partial_smaps_def)
  have e: "sscanf_header_tail (butlast (cstr (partial_smaps ! 2)))
        (drop 17 (butlast (cstr (partial_smaps ! 2)))) = None"
    by (simp add: partial_smaps_def partial_header_def eval_defs cong: eval_congs)
  have f: "privateDirty (read_mapinfo [] 0 skipped_smaps (replicate NUM_HEAP zero_stats) ! HEAP_NATIVE) = 12"
    unfolding skipped_run by (simp add: heap_defs)
  have g: "stats_t.pss (read_mapinfo [] 0 partial_smaps (replicate NUM_HEAP zero_stats) ! HEAP_SO) = 5"
    unfolding partial_run by (simp add: heap_defs)
  show ?thesis
    using a b c d e f g by simp
qed

text \<open>
  C5, amended: a block whose header line does not give \<^verbatim>\<open>sscanf\<close> its two addresses,
  in any state of the parser and followed by any lines: the array of totals is, when
  the block has ended, what it was before it; the lines up to the next line that looks
  like a mapping are read all the same, so that the stream left is the one behind that
  line, and that line is in the buffer unless the stream has ended.
\<close>

theorem malformed_header_skipped:
  assumes "fst (sscanf_header (cstr (chop (line v)))) \<noteq> 2"
  shows "stats (fst (block (begin_block v) fp)) = stats v
       \<and> snd (block (begin_block v) fp) = lines_after_block fp
       \<and> (done_v (fst (block (begin_block v) fp))
          \<or> looks_like_mapping (cstr (line (fst (block (begin_block v) fp)))))"
proof -
  let ?v0 = "(begin_block v)\<lparr>line := chop (line (begin_block v))\<rparr>"
  define v1 where "v1 = parse_header ?v0"
  have "fst (sscanf_header (cstr (line ?v0))) \<noteq> 2"
    using assms by (simp add: begin_block_def)
  from parse_header_skip [OF this]
  have v1: "skip v1" "stats v1 = stats v"
    by (simp_all add: v1_def begin_block_def)
  obtain v3 fp' where r: "stat_loop v1 fp = (v3, fp')"
    by (cases "stat_loop v1 fp")
  from stat_loop_frame [OF r] v1 have v3: "skip v3" "stats v3 = stats v"
    by simp_all
  have b: "block (begin_block v) fp = (end_block v3, fp')"
    using r by (simp add: block_def Let_def v1_def)
  have e: "end_block v3 = v3"
    using v3 by (simp add: end_block_def)
  have "fp' = lines_after_block fp"
    using stat_loop_rest [of v1 fp] r by simp
  moreover have "done_v v3 \<or> looks_like_mapping (cstr (line v3))"
    using stat_loop_stops [of v1 fp] r by simp
  ultimately show ?thesis
    unfolding b e using v3 by simp
qed

theorem malformed_header_skipped_witness:
  "fst (sscanf_header (cstr (chop (line bad_locals)))) \<noteq> 2
   \<and> stats (fst (block (begin_block bad_locals) bad_rest)) = replicate NUM_HEAP zero_stats
   \<and> snd (block (begin_block bad_locals) bad_rest) = [''Pss:                   3 kB'' @ nl]"
proof -
  have h: "fst (sscanf_header (cstr (chop (line bad_locals)))) \<noteq> 2"
    by (simp add: bad_locals_def bad_header_def eval_defs)
  have l: "lines_after_block bad_rest = [''Pss:                   3 kB'' @ nl]"
    by (simp add: bad_rest_def heap_header_def is_stat_line_def stat_keys_def eval_defs)
  have s: "stats bad_locals = replicate NUM_HEAP zero_stats"
    by (simp add: bad_locals_def init_locals_def)
  show ?thesis
    using malformed_header_skipped [OF h, of bad_rest] h l s by simp
qed

lemma size_only_run:
  "(let r = mapinfo_loop (init_locals (store_line heap_header line0) name_pos0
              (replicate NUM_HEAP zero_stats)) (tl size_only_smaps)
    in (size_v r, whichHeap r, stats r ! HEAP_STACK, stats r ! HEAP_NATIVE))
   = (132, HEAP_STACK, zero_stats, zero_stats)"
  by (simp add: size_only_smaps_def heap_header_def stack_header_def mapinfo_loop.simps eval_defs
      cong: eval_congs)

text \<open>
  C10, as the code has it. The variables \<^verbatim>\<open>size\<close>, \<^verbatim>\<open>resident\<close> and
  \<^verbatim>\<open>referenced\<close> are carried from block to block like the others, but no total
  receives them: after a block with \<^verbatim>\<open>Size: 132 kB\<close> and a second block without a
  \<^verbatim>\<open>Size\<close> line, \<^verbatim>\<open>size\<close> still holds 132 and every total of the second block's heap
  is 0.
\<close>

theorem carried_size_counterexample:
  "\<not> key_in_block ''Size:'' (drop 3 size_only_smaps)
   \<and> size_v (mapinfo_loop (init_locals (store_line heap_header []) 0
       (replicate NUM_HEAP zero_stats)) (tl size_only_smaps)) = 132
   \<and> whichHeap (mapinfo_loop (init_locals (store_line heap_header []) 0
       (replicate NUM_HEAP zero_stats)) (tl size_only_smaps)) = HEAP_STACK
   \<and> read_mapinfo [] 0 size_only_smaps (replicate NUM_HEAP zero_stats) ! HEAP_STACK = zero_stats"
proof -
  have r: "read_mapinfo [] 0 size_only_smaps (replicate NUM_HEAP zero_stats)
      = stats (mapinfo_loop (init_locals (store_line heap_header []) 0
          (replicate NUM_HEAP zero_stats)) (tl size_only_smaps))"
    by (simp add: read_mapinfo_def fgets_def size_only_smaps_def)
  have k: "\<not> key_in_block ''Size:'' (drop 3 size_only_smaps)"
    by (simp add: size_only_smaps_def)
  show ?thesis
    unfolding r using size_only_run [of "[]" 0] k by (simp add: Let_def)
qed

text \<open>
  C10, amended: in a block whose header is read and whose lines have no line of a
  key, the variable of that key keeps the value it had when the block began (the one
  most recently read in an earlier block, or 0). For \<^verbatim>\<open>Pss\<close>, \<^verbatim>\<open>Shared_Clean\<close>,
  \<^verbatim>\<open>Shared_Dirty\<close>, \<^verbatim>\<open>Private_Clean\<close> and \<^verbatim>\<open>Private_Dirty\<close> that value is added to
  the total of the block's heap; \<^verbatim>\<open>Size\<close>, \<^verbatim>\<open>Rss\<close> and \<^verbatim>\<open>Referenced\<close> are carried
  and enter no total.
\<close>

theorem missing_key_carried:
  assumes "fst (sscanf_header (cstr (chop (line v)))) = 2" and "length (stats v) = NUM_HEAP"
  shows
   "(\<not> key_in_block ''Pss:'' fp \<longrightarrow>
        pss (fst (block (begin_block v) fp)) = pss v
      \<and> stats_t.pss (stats (fst (block (begin_block v) fp)) ! whichHeap (fst (block (begin_block v) fp)))
          = stats_t.pss (stats v ! whichHeap (fst (block (begin_block v) fp))) + pss v)
  \<and> (\<not> key_in_block ''Shared_Clean:'' fp \<longrightarrow>
        shared_clean (fst (block (begin_block v) fp)) = shared_clean v
      \<and> sharedClean (stats (fst (block (begin_block v) fp)) ! whichHeap (fst (block (begin_block v) fp)))
          = sharedClean (stats v ! whichHeap (fst (block (begin_block v) fp))) + shared_clean v)
  \<and> (\<not> key_in_block ''Shared_Dirty:'' fp \<longrightarrow>
        shared_dirty (fst (block (begin_block v) fp)) = shared_dirty v
      \<and> sharedDirty (stats (fst (block (begin_block v) fp)) ! whichHeap (fst (block (begin_block v) fp)))
          = sharedDirty (stats v ! whichHeap (fst (block (begin_block v) fp))) + shared_dirty v)
  \<and> (\<not> key_in_block ''Private_Clean:'' fp \<longrightarrow>
        private_clean (fst (block (begin_block v) fp)) = private_clean v
      \<and> privateClean (stats (fst (block (begin_block v) fp)) ! whichHeap (fst (block (begin_block v) fp)))
          = privateClean (stats v ! whichHeap (fst (block (begin_block v) fp))) + private_clean v)
  \<and> (\<not> key_in_block ''Private_Dirty:'' fp \<longrightarrow>
        private_dirty (fst (block (begin_block v) fp)) = private_dirty v
      \<and> privateDirty (stats (fst (block (begin_block v) fp)) ! whichHeap (fst (block (begin_block v) fp)))
          = privateDirty (stats v ! whichHeap (fst (block (begin_block v) fp))) + private_dirty v)
  \<and> (\<not> key_in_block ''Size:'' fp \<longrightarrow> size_v (fst (block (begin_block v) fp)) = size_v v)
  \<and> (\<not> key_in_block ''Rss:'' fp \<longrightarrow> resident (fst (block (begin_block v) fp)) = resident v)
  \<and> (\<not> key_in_block ''Referenced:'' fp \<longrightarrow> referenced (fst (block (begin_block v) fp)) = referenced v)"
proof -
  from block_summary [OF assms, of fp] obtain v1 v3 fp' where
    v1: "v1 = parse_header ((begin_block v)\<lparr>line := chop (line v)\<rparr>)"
    and r: "stat_loop v1 fp = (v3, fp')"
    and b: "block (begin_block v) fp = (end_block v3, fp')"
    and v3: "\<not> skip v3" "block_inv v3" "stats v3 = stats v"
    by blast
  have k1: "pss v1 = pss v" "shared_clean v1 = shared_clean v" "shared_dirty v1 = shared_dirty v"
    "private_clean v1 = private_clean v" "private_dirty v1 = private_dirty v"
    "size_v v1 = size_v v" "resident v1 = resident v" "referenced v1 = referenced v"
    using parse_header_keeps [of "(begin_block v)\<lparr>line := chop (line v)\<rparr>"]
    by (simp_all add: v1 begin_block_def)
  have len: "length (stats v3) = NUM_HEAP"
    using v3 assms(2) by simp
  note e = end_block_entry [OF v3(1) v3(2) len]
  note c = stat_loop_carries [of fp v1]
  have w: "whichHeap (end_block v3) = whichHeap v3"
    using end_block_keeps [of v3] by simp
  show ?thesis
    unfolding b fst_conv w e
    using c r k1 v3(3) end_block_keeps [of v3]
    by simp
qed

theorem missing_key_carried_witness:
  "fst (sscanf_header (cstr (chop (line carried_locals)))) = 2
   \<and> length (stats carried_locals) = NUM_HEAP
   \<and> \<not> key_in_block ''Pss:'' carried_rest
   \<and> pss (fst (block (begin_block carried_locals) carried_rest)) = 12
   \<and> whichHeap (fst (block (begin_block carried_locals) carried_rest)) = HEAP_STACK
   \<and> stats_t.pss (stats (fst (block (begin_block carried_locals) carried_rest)) ! HEAP_STACK) = 12"
proof -
  have h: "fst (sscanf_header (cstr (chop (line carried_locals)))) = 2"
    by (simp add: carried_locals_def stack_header_def eval_defs cong: eval_congs)
  have l: "length (stats carried_locals) = NUM_HEAP"
    by (simp add: carried_locals_def init_locals_def)
  have k: "\<not> key_in_block ''Pss:'' carried_rest"
    by (simp add: carried_rest_def is_stat_line_def stat_keys_def eval_defs cong: eval_congs)
  have w: "whichHeap (fst (block (begin_block carried_locals) carried_rest)) = HEAP_STACK"
    by (simp add: carried_locals_def carried_rest_def stack_header_def eval_defs cong: eval_congs)
  have z: "stats_t.pss (stats carried_locals ! HEAP_STACK) = 0" "pss carried_locals = 12"
    by (simp_all add: carried_locals_def init_locals_def zero_stats_def heap_defs)
  from missing_key_carried [OF h l, of carried_rest] k
  have "pss (fst (block (begin_block carried_locals) carried_rest)) = pss carried_locals
      \<and> stats_t.pss (stats (fst (block (begin_block carried_locals) carried_rest))
            ! whichHeap (fst (block (begin_block carried_locals) carried_rest)))
          = stats_t.pss (stats carried_locals ! whichHeap (fst (block (begin_block carried_locals) carried_rest)))
            + pss carried_locals"
    by blast
  then show ?thesis
    using h l k w z by simp
qed

section \<open>The swappable pss of a block\<close>

lemma libfoo_run:
  "(let r = mapinfo_loop (init_locals (store_line libfoo_header line0) name_pos0
              (replicate NUM_HEAP zero_stats)) (tl libfoo_smaps)
    in (whichHeap r, is_swappable r, swappable_pss r, stats r ! HEAP_SO))
   = (HEAP_SO, True, 70,
      \<lparr>stats_t.pss = 100, swappablePss = 70, privateDirty = 10, sharedDirty = 20,
       privateClean = 20, sharedClean = 50\<rparr>)"
  by (simp add: libfoo_smaps_def libfoo_header_def mapinfo_loop.simps eval_defs f32_def
      cong: eval_congs)

text \<open>
  C7: the listing with the one mapping \<^verbatim>\<open>/system/lib/libfoo.so\<close> and \<^verbatim>\<open>Pss\<close> 100,
  \<^verbatim>\<open>Private_Clean\<close> 20, \<^verbatim>\<open>Private_Dirty\<close> 10, \<^verbatim>\<open>Shared_Clean\<close> 50,
  \<^verbatim>\<open>Shared_Dirty\<close> 20, read from any initial content of the line buffer: the block
  is classified \<^verbatim>\<open>HEAP_SO\<close> with \<^verbatim>\<open>is_swappable\<close> set, its \<^verbatim>\<open>swappable_pss\<close> is 70,
  and the totals of \<^verbatim>\<open>HEAP_SO\<close> are 70 for \<^verbatim>\<open>swappablePss\<close> and 100 for \<^verbatim>\<open>pss\<close>.
\<close>

theorem libfoo_example:
  "whichHeap (mapinfo_loop (init_locals (store_line libfoo_header line0) name_pos0
       (replicate NUM_HEAP zero_stats)) (tl libfoo_smaps)) = HEAP_SO
   \<and> is_swappable (mapinfo_loop (init_locals (store_line libfoo_header line0) name_pos0
       (replicate NUM_HEAP zero_stats)) (tl libfoo_smaps))
   \<and> swappable_pss (mapinfo_loop (init_locals (store_line libfoo_header line0) name_pos0
       (replicate NUM_HEAP zero_stats)) (tl libfoo_smaps)) = 70
   \<and> swappablePss (read_mapinfo line0 name_pos0 libfoo_smaps (replicate NUM_HEAP zero_stats) ! HEAP_SO) = 70
   \<and> stats_t.pss (read_mapinfo line0 name_pos0 libfoo_smaps (replicate NUM_HEAP zero_stats) ! HEAP_SO) = 100"
proof -
  have r: "read_mapinfo line0 name_pos0 libfoo_smaps (replicate NUM_HEAP zero_stats)
      = stats (mapinfo_loop (init_locals (store_line libfoo_header line0) name_pos0
          (replicate NUM_HEAP zero_stats)) (tl libfoo_smaps))"
    by (simp add: read_mapinfo_def fgets_def libfoo_smaps_def)
  show ?thesis
    unfolding r using libfoo_run [of line0 name_pos0] by (simp add: Let_def)
qed

lemma half_shared_run:
  "(let r = mapinfo_loop (init_locals (store_line libfoo_header line0) name_pos0
              (replicate NUM_HEAP zero_stats)) (tl half_shared_smaps)
    in (whichHeap r, is_swappable r, sharing_proportion r, swappable_pss r, stats r ! HEAP_SO))
   = (HEAP_SO, True, 0, 20,
      \<lparr>stats_t.pss = 100, swappablePss = 20, privateDirty = 10, sharedDirty = 50,
       privateClean = 20, sharedClean = 50\<rparr>)"
  by (simp add: half_shared_smaps_def libfoo_header_def mapinfo_loop.simps eval_defs f32_def
      cong: eval_congs)

text \<open>
  C2, at a mapping where the quotient is not a whole number: \<^verbatim>\<open>Pss\<close> 100,
  \<^verbatim>\<open>Private_Clean\<close> 20, \<^verbatim>\<open>Private_Dirty\<close> 10, \<^verbatim>\<open>Shared_Clean\<close> 50 and
  \<^verbatim>\<open>Shared_Dirty\<close> 50. The code divides two \<^verbatim>\<open>unsigned\<close> numbers, 70 by 100, before
  the result goes to the \<^verbatim>\<open>float sharing_proportion\<close>: the proportion is 0 and the
  swappable pss added is 20, where the formula of the specification gives
  \<open>(70 / 100) * 50 + 20 = 55\<close>.
\<close>

theorem sharing_quotient_truncated:
  "is_swappable (mapinfo_loop (init_locals (store_line libfoo_header line0) name_pos0
       (replicate NUM_HEAP zero_stats)) (tl half_shared_smaps))
   \<and> sharing_proportion (mapinfo_loop (init_locals (store_line libfoo_header line0) name_pos0
       (replicate NUM_HEAP zero_stats)) (tl half_shared_smaps)) = 0
   \<and> swappablePss (read_mapinfo line0 name_pos0 half_shared_smaps (replicate NUM_HEAP zero_stats) ! HEAP_SO) = 20
   \<and> spec_swappable_pss True 100 20 10 50 50 = 55"
proof -
  have r: "read_mapinfo line0 name_pos0 half_shared_smaps (replicate NUM_HEAP zero_stats)
      = stats (mapinfo_loop (init_locals (store_line libfoo_header line0) name_pos0
          (replicate NUM_HEAP zero_stats)) (tl half_shared_smaps))"
    by (simp add: read_mapinfo_def fgets_def half_shared_smaps_def)
  have s: "spec_swappable_pss True 100 20 10 50 50 = 55"
    by (simp add: spec_swappable_pss_def)
  show ?thesis
    unfolding r using half_shared_run [of line0 name_pos0] s by (simp add: Let_def)
qed

section \<open>The sum of the pss totals\<close>

lemma pss_total_add_to:
  assumes "length (stats v) = NUM_HEAP"
  shows "pss_total NUM_EXCLUSIVE_HEAP (stats (add_to h v)) =
     (if h < NUM_EXCLUSIVE_HEAP then pss_total NUM_EXCLUSIVE_HEAP (stats v) + pss v
      else pss_total NUM_EXCLUSIVE_HEAP (stats v))"
proof (cases "h < NUM_EXCLUSIVE_HEAP")
  case True
  then have k: "h < length (take NUM_EXCLUSIVE_HEAP (stats v))"
    using assms by (simp add: heap_defs)
  have n: "take NUM_EXCLUSIVE_HEAP (stats v) ! h = stats v ! h"
    using True by simp
  show ?thesis
    using True sum_list_map_update [OF k, of stats_t.pss]
    by (simp add: pss_total_def add_to_def take_update_swap n)
next
  case False
  then show ?thesis
    by (simp add: pss_total_def add_to_def take_update_cancel)
qed

lemma add_to_keeps:
  "pss (add_to h v) = pss v \<and> whichHeap (add_to h v) = whichHeap v \<and> subHeap (add_to h v) = subHeap v
   \<and> length (stats (add_to h v)) = length (stats v) \<and> done_v (add_to h v) = done_v v
   \<and> line (add_to h v) = line v"
  by (simp add: add_to_def)

lemma end_block_total:
  assumes "\<not> skip v" "block_inv v" "length (stats v) = NUM_HEAP"
  shows "pss_total NUM_EXCLUSIVE_HEAP (stats (end_block v)) = pss_total NUM_EXCLUSIVE_HEAP (stats v) + pss v"
proof -
  let ?c = "compute_swappable v"
  have c: "whichHeap ?c = whichHeap v" "subHeap ?c = subHeap v" "stats ?c = stats v" "pss ?c = pss v"
    using compute_swappable_keeps [of v] by simp_all
  let ?a = "add_to (whichHeap v) ?c"
  have w: "whichHeap v < NUM_EXCLUSIVE_HEAP"
    using assms(2) by (simp add: block_inv_def)
  have a: "pss_total NUM_EXCLUSIVE_HEAP (stats ?a) = pss_total NUM_EXCLUSIVE_HEAP (stats v) + pss v"
    using pss_total_add_to [of ?c "whichHeap v"] c w assms(3) by simp
  have ak: "whichHeap ?a = whichHeap v" "subHeap ?a = subHeap v" "length (stats ?a) = NUM_HEAP"
    using add_to_keeps [of "whichHeap v" ?c] c assms(3) by simp_all
  show ?thesis
  proof (cases "whichHeap v = HEAP_DALVIK \<or> whichHeap v = HEAP_DALVIK_OTHER")
    case True
    with assms(2) have s: "\<not> subHeap v < NUM_EXCLUSIVE_HEAP"
      by (auto simp: block_inv_def)
    have e: "end_block v = add_to (subHeap v) ?a"
      using assms(1) True c ak by (simp add: end_block_def Let_def)
    show ?thesis
      unfolding e using pss_total_add_to [of ?a "subHeap v"] ak s a by simp
  next
    case False
    have e: "end_block v = ?a"
      using assms(1) False c ak by (simp add: end_block_def Let_def)
    show ?thesis unfolding e by (rule a)
  qed
qed

lemma end_block_more:
  "done_v (end_block v) = done_v v \<and> line (end_block v) = line v
   \<and> length (stats (end_block v)) = length (stats v)"
  by (simp add: end_block_def add_to_def Let_def compute_swappable_def)

lemma pss_line_only:
  assumes "sscanf_kB ''Pss:'' s = Some t"
  shows "parse_stat s v = Some (v\<lparr>pss := t\<rparr>)"
proof -
  from assms have p: "prefix ''Pss:'' s"
    by (auto simp: sscanf_kB_def split: if_splits)
  then have "\<not> prefix ''Size:'' s" "\<not> prefix ''Rss:'' s"
    by (cases s; simp)+
  then have "sscanf_kB ''Size:'' s = None" "sscanf_kB ''Rss:'' s = None"
    by (simp_all add: sscanf_kB_def)
  with assms show ?thesis
    by (simp add: parse_stat_def)
qed

lemma parse_stat_line: "parse_stat s v = Some v' \<Longrightarrow> line v' = line v \<and> done_v v' = done_v v"
  using parse_stat_frame by blast

lemma header_ok_chop:
  "header_ok (cstr (line v)) \<Longrightarrow> fst (sscanf_header (cstr (chop (line v)))) = 2"
  by (simp add: header_ok_def cstr_chop)

lemma pss_total_nth:
  "n \<le> length st \<Longrightarrow> pss_total n st = sum_list (map (\<lambda>i. stats_t.pss (st ! i)) [0 ..< n])"
proof -
  assume n: "n \<le> length st"
  have "take n st = take n (map ((!) st) [0 ..< length st])"
    by (simp add: map_nth)
  also have "\<dots> = map ((!) st) [0 ..< n]"
    using n by (simp add: take_map min_def)
  finally show ?thesis
    by (simp add: pss_total_def comp_def)
qed

lemma fold_other_entries:
  assumes "0 < i" "i < length st"
  shows "stats_t.pss (fold_other i st ! 0) = stats_t.pss (st ! 0) + stats_t.pss (st ! i)"
    and "0 < j \<Longrightarrow> fold_other i st ! j = st ! j"
    and "length (fold_other i st) = length st"
proof -
  from assms have z: "0 < length st" by arith
  show "stats_t.pss (fold_other i st ! 0) = stats_t.pss (st ! 0) + stats_t.pss (st ! i)"
    using z by (simp add: fold_other_def heap_defs)
  show "0 < j \<Longrightarrow> fold_other i st ! j = st ! j"
    by (simp add: fold_other_def heap_defs)
  show "length (fold_other i st) = length st"
    by (simp add: fold_other_def)
qed

lemma fold_other_list:
  assumes "\<forall>i\<in>set ixs. 0 < i \<and> i < length st"
  shows "stats_t.pss (fold fold_other ixs st ! 0)
           = stats_t.pss (st ! 0) + sum_list (map (\<lambda>i. stats_t.pss (st ! i)) ixs)
       \<and> (\<forall>j. 0 < j \<longrightarrow> fold fold_other ixs st ! j = st ! j)
       \<and> length (fold fold_other ixs st) = length st"
  using assms
proof (induction ixs arbitrary: st)
  case Nil
  show ?case by simp
next
  case (Cons i ixs)
  then have i: "0 < i" "i < length st" by simp_all
  note e = fold_other_entries [OF i]
  have "\<forall>k\<in>set ixs. 0 < k \<and> k < length (fold_other i st)"
    using Cons.prems e(3) by simp
  from Cons.IH [OF this]
  have ih: "stats_t.pss (fold fold_other ixs (fold_other i st) ! 0)
           = stats_t.pss (fold_other i st ! 0)
             + sum_list (map (\<lambda>k. stats_t.pss (fold_other i st ! k)) ixs)"
    "\<forall>j. 0 < j \<longrightarrow> fold fold_other ixs (fold_other i st) ! j = fold_other i st ! j"
    "length (fold fold_other ixs (fold_other i st)) = length (fold_other i st)"
    by simp_all
  have m: "map (\<lambda>k. stats_t.pss (fold_other i st ! k)) ixs = map (\<lambda>k. stats_t.pss (st ! k)) ixs"
    using Cons.prems e(2) by simp
  show ?case
    using ih e m by (simp add: add.assoc)
qed

lemma fold_other_core:
  assumes "length st = NUM_HEAP"
  shows "pss_total NUM_CORE_HEAP (fold fold_other [NUM_CORE_HEAP ..< NUM_EXCLUSIVE_HEAP] st)
       = pss_total NUM_EXCLUSIVE_HEAP st"
proof -
  let ?st = "fold fold_other [NUM_CORE_HEAP ..< NUM_EXCLUSIVE_HEAP] st"
  have "\<forall>i\<in>set [NUM_CORE_HEAP ..< NUM_EXCLUSIVE_HEAP]. 0 < i \<and> i < length st"
    using assms by (simp add: heap_defs)
  from fold_other_list [OF this]
  have f: "stats_t.pss (?st ! 0) = stats_t.pss (st ! 0)
             + sum_list (map (\<lambda>i. stats_t.pss (st ! i)) [NUM_CORE_HEAP ..< NUM_EXCLUSIVE_HEAP])"
    "?st ! 1 = st ! 1" "?st ! 2 = st ! 2" "length ?st = length st"
    by simp_all
  have u: "[0 ..< NUM_EXCLUSIVE_HEAP] = [0, 1, 2] @ [NUM_CORE_HEAP ..< NUM_EXCLUSIVE_HEAP]"
    "[0 ..< NUM_CORE_HEAP] = [0, 1, 2]"
    by (simp_all add: heap_defs upt_rec)
  have "pss_total NUM_CORE_HEAP ?st = stats_t.pss (?st ! 0) + stats_t.pss (?st ! 1) + stats_t.pss (?st ! 2)"
    using pss_total_nth [of NUM_CORE_HEAP ?st] f(4) assms u(2) by (simp add: heap_defs add.assoc)
  moreover have "pss_total NUM_EXCLUSIVE_HEAP st = stats_t.pss (st ! 0) + stats_t.pss (st ! 1) + stats_t.pss (st ! 2)
      + sum_list (map (\<lambda>i. stats_t.pss (st ! i)) [NUM_CORE_HEAP ..< NUM_EXCLUSIVE_HEAP])"
    using pss_total_nth [of NUM_EXCLUSIVE_HEAP st] assms
    unfolding u(1) by (simp add: heap_defs add.assoc)
  ultimately show ?thesis
    using f by (simp add: add.assoc add.left_commute)
qed

lemma block_length:
  "length (stats (fst (block v fp))) = length (stats v)"
proof -
  obtain v3 fp' where r: "stat_loop (parse_header (v\<lparr>line := chop (line v)\<rparr>)) fp = (v3, fp')"
    by (cases "stat_loop (parse_header (v\<lparr>line := chop (line v)\<rparr>)) fp")
  from stat_loop_frame [OF r] parse_header_keeps [of "v\<lparr>line := chop (line v)\<rparr>"]
  have "stats v3 = stats v" by simp
  then show ?thesis
    using r end_block_more [of v3] by (simp add: block_def Let_def)
qed

lemma mapinfo_loop_length:
  "length (stats (mapinfo_loop v fp)) = length (stats v)"
proof (induction v fp rule: mapinfo_loop.induct)
  case (1 v fp)
  show ?case
  proof (cases "strlen (line v) < 1")
    case True
    then show ?thesis
      by (simp add: mapinfo_loop.simps [of v fp] begin_block_def)
  next
    case False
    obtain v' fp' where b: "block (begin_block v) fp = (v', fp')"
      by (cases "block (begin_block v) fp")
    have l: "length (stats v') = length (stats v)"
      using block_length [of "begin_block v" fp] b by (simp add: begin_block_def)
    show ?thesis
    proof (cases "done_v v'")
      case True
      then show ?thesis
        using False b l by (simp add: mapinfo_loop.simps [of v fp])
    next
      case nd: False
      then show ?thesis
        using False b l "1.IH" [OF False, of v' fp']
        by (simp add: mapinfo_loop.simps [of v fp])
    qed
  qed
qed

lemma read_mapinfo_length:
  "length (read_mapinfo line0 name_pos0 fp stats0) = length stats0"
  by (cases fp) (simp_all add: read_mapinfo_def fgets_def mapinfo_loop_length init_locals_def)

lemma conv_x_key:
  assumes "c = CHR ''S'' \<or> c = CHR ''R'' \<or> c = CHR ''P''"
  shows "conv_x (c # t) = None"
proof -
  have a: "dropWhile isspace (c # t) = c # t"
    using assms by (auto simp: isspace_def)
  have b: "scan_sign (c # t) = (False, c # t)"
    using assms by (auto simp: scan_sign_def)
  have h: "hexval c = None"
    using assms by (auto simp: hexval_def)
  have "c \<noteq> CHR ''0''"
    using assms by auto
  then have d: "skip_0x (c # t) = c # t"
    by (simp add: skip_0x_def split: list.splits)
  show ?thesis
    unfolding conv_x_def a b by (simp add: d h)
qed

lemma stat_line_first:
  assumes "is_stat_line s"
  shows "\<exists>c t. s = c # t \<and> t \<noteq> [] \<and> (c = CHR ''S'' \<or> c = CHR ''R'' \<or> c = CHR ''P'')"
proof -
  from assms obtain key where k: "key \<in> set stat_keys" "prefix key s"
    by (auto simp: is_stat_line_def list_ex_iff sscanf_kB_def split: if_splits)
  from k(1) obtain c k' where key: "key = c # k'" "k' \<noteq> []"
      "c = CHR ''S'' \<or> c = CHR ''R'' \<or> c = CHR ''P''"
    unfolding stat_keys_def by auto
  from k(2) key(1) obtain t where "s = c # t" "prefix k' t"
    by (cases s) auto
  with key show ?thesis
    by auto
qed

lemma header_no_stat: "header_ok s \<Longrightarrow> \<not> is_stat_line s"
proof
  assume h: "header_ok s" and "is_stat_line s"
  from stat_line_first [OF this(2)] obtain c t where
    s: "s = c # t" "t \<noteq> []" "c = CHR ''S'' \<or> c = CHR ''R'' \<or> c = CHR ''P''"
    by blast
  then have "butlast s = c # butlast t" by simp
  with conv_x_key [OF s(3), of "butlast t"] have "fst (sscanf_header (butlast s)) \<noteq> 2"
    by (simp add: sscanf_header_def)
  with h show False by (simp add: header_ok_def)
qed

lemma header_ok_nonempty: "\<not> header_ok []"
  by (simp add: header_ok_def sscanf_header_def conv_x_def scan_sign_def skip_0x_def)

lemma sum_list_map_update_le:
  fixes f :: "'a \<Rightarrow> nat"
  shows "k < length xs \<Longrightarrow> f x \<le> f (xs ! k) + d \<Longrightarrow>
     sum_list (map f (xs[k := x])) \<le> sum_list (map f xs) + d"
proof (induction xs arbitrary: k)
  case Nil
  then show ?case by simp
next
  case (Cons a xs)
  then show ?case by (cases k) auto
qed

lemma unat_add_le: "unat (a + b :: u32) \<le> unat a + unat b"
  by (simp add: unat_word_ariths)

lemma pss_count_add_to:
  assumes "length (stats v) = NUM_HEAP"
  shows "pss_count NUM_EXCLUSIVE_HEAP (stats (add_to h v)) \<le>
     pss_count NUM_EXCLUSIVE_HEAP (stats v) + (if h < NUM_EXCLUSIVE_HEAP then unat (pss v) else 0)"
proof (cases "h < NUM_EXCLUSIVE_HEAP")
  case True
  then have k: "h < length (take NUM_EXCLUSIVE_HEAP (stats v))"
    using assms by (simp add: heap_defs)
  have n: "take NUM_EXCLUSIVE_HEAP (stats v) ! h = stats v ! h"
    using True by simp
  show ?thesis
    using True n unat_add_le [of "stats_t.pss (stats v ! h)" "pss v"]
      sum_list_map_update_le [OF k, of "\<lambda>s. unat (stats_t.pss s)" _ "unat (pss v)"]
    by (simp add: pss_count_def add_to_def take_update_swap)
next
  case False
  then show ?thesis
    by (simp add: pss_count_def add_to_def take_update_cancel)
qed

lemma end_block_count:
  assumes "\<not> skip v" "block_inv v" "length (stats v) = NUM_HEAP"
  shows "pss_count NUM_EXCLUSIVE_HEAP (stats (end_block v))
       \<le> pss_count NUM_EXCLUSIVE_HEAP (stats v) + unat (pss v)"
proof -
  let ?c = "compute_swappable v"
  have c: "whichHeap ?c = whichHeap v" "subHeap ?c = subHeap v" "stats ?c = stats v" "pss ?c = pss v"
    using compute_swappable_keeps [of v] by simp_all
  let ?a = "add_to (whichHeap v) ?c"
  have w: "whichHeap v < NUM_EXCLUSIVE_HEAP"
    using assms(2) by (simp add: block_inv_def)
  have a: "pss_count NUM_EXCLUSIVE_HEAP (stats ?a) \<le> pss_count NUM_EXCLUSIVE_HEAP (stats v) + unat (pss v)"
    using pss_count_add_to [of ?c "whichHeap v"] c w assms(3) by simp
  have ak: "whichHeap ?a = whichHeap v" "subHeap ?a = subHeap v" "length (stats ?a) = NUM_HEAP"
    using add_to_keeps [of "whichHeap v" ?c] c assms(3) by simp_all
  show ?thesis
  proof (cases "whichHeap v = HEAP_DALVIK \<or> whichHeap v = HEAP_DALVIK_OTHER")
    case True
    with assms(2) have s: "\<not> subHeap v < NUM_EXCLUSIVE_HEAP"
      by (auto simp: block_inv_def)
    have e: "end_block v = add_to (subHeap v) ?a"
      using assms(1) True c ak by (simp add: end_block_def Let_def)
    show ?thesis
      unfolding e using pss_count_add_to [of ?a "subHeap v"] ak s a by simp
  next
    case False
    have e: "end_block v = ?a"
      using assms(1) False c ak by (simp add: end_block_def Let_def)
    show ?thesis unfolding e by (rule a)
  qed
qed

lemma of_nat_sum_unat: "(of_nat (sum_list (map unat xs)) :: u32) = sum_list xs"
  by (induction xs) simp_all

lemma of_nat_pss_count: "(of_nat (pss_count n st) :: u32) = pss_total n st"
proof -
  have "map (\<lambda>s. unat (stats_t.pss s)) (take n st) = map unat (map stats_t.pss (take n st))"
    by simp
  then show ?thesis
    unfolding pss_count_def pss_total_def using of_nat_sum_unat by metis
qed

lemma count_eq:
  assumes "(of_nat a :: u32) = of_nat b" "a \<le> b" "b < 2 ^ 32"
  shows "a = b"
proof -
  from assms(1) have "unat (of_nat a :: u32) = unat (of_nat b :: u32)" by simp
  then have "a mod 2 ^ 32 = b mod 2 ^ 32"
    by (simp add: unat_of_nat)
  with assms(2,3) show ?thesis by simp
qed

lemma sint_small:
  assumes "unat (x :: u32) < 2 ^ 31"
  shows "sint x = int (unat x)"
proof -
  have "int (unat x) < int (2 ^ 31)"
    using assms by (rule iffD2 [OF of_nat_less_iff])
  then have u: "uint x < 2 ^ 31"
    by simp
  have "- (2 ^ 31) \<le> uint x"
    by (rule order_trans [of _ 0]) simp_all
  then have "signed_take_bit 31 (uint x) = uint x"
    using u by (rule signed_take_bit_int_eq_self)
  then show ?thesis
    by (simp add: sint_uint)
qed

lemma sum_sint_small:
  fixes f :: "'a \<Rightarrow> u32"
  shows "sum_list (map (\<lambda>s. unat (f s)) xs) < 2 ^ 31 \<Longrightarrow>
     sum_list (map (\<lambda>s. sint (f s)) xs) = int (sum_list (map (\<lambda>s. unat (f s)) xs))"
proof (induction xs)
  case Nil
  show ?case by simp
next
  case (Cons a xs)
  then have "unat (f a) < 2 ^ 31" "sum_list (map (\<lambda>s. unat (f s)) xs) < 2 ^ 31"
    by simp_all
  with Cons.IH sint_small [of "f a"] show ?case
    by simp
qed

lemma pss_count_exact:
  assumes "pss_total n st = sum_list (map own_pss bs)"
    and "pss_count n st \<le> sum_list (map (\<lambda>b. unat (own_pss b)) bs)"
    and "sum_list (map (\<lambda>b. unat (own_pss b)) bs) < 2 ^ 31"
  shows "sum_list (map (\<lambda>s. sint (stats_t.pss s)) (take n st))
       = int (sum_list (map (\<lambda>b. unat (own_pss b)) bs))"
proof -
  let ?S = "sum_list (map (\<lambda>b. unat (own_pss b)) bs)"
  have "(of_nat ?S :: u32) = sum_list (map own_pss bs)"
    using of_nat_sum_unat [of "map own_pss bs"] by (simp add: comp_def)
  with assms(1) have "(of_nat (pss_count n st) :: u32) = of_nat ?S"
    by (simp add: of_nat_pss_count)
  moreover have "?S < 2 ^ 32"
    using assms(3) by simp
  ultimately have c: "pss_count n st = ?S"
    using assms(2) by (intro count_eq)
  then have "sum_list (map (\<lambda>s. unat (stats_t.pss s)) (take n st)) < 2 ^ 31"
    using assms(3) by (simp add: pss_count_def)
  from sum_sint_small [OF this] c show ?thesis
    by (simp add: pss_count_def)
qed

lemma stat_loop_Some:
  "parse_stat (cstr l) (v\<lparr>line := store_line l (line v)\<rparr>) = Some v2
   \<Longrightarrow> stat_loop v (l # fp) = stat_loop v2 fp"
  by (simp add: cstr_store_line)

lemma stat_loop_None:
  "parse_stat (cstr l) (v\<lparr>line := store_line l (line v)\<rparr>) = None
   \<Longrightarrow> stat_loop v (l # fp) =
       (if looks_like_mapping (cstr l) then (v\<lparr>line := store_line l (line v)\<rparr>, fp)
        else stat_loop (v\<lparr>line := store_line l (line v)\<rparr>) fp)"
  by (simp add: cstr_store_line)

lemma stat_loop_block_lines:
  assumes "list_all (\<lambda>l. \<not> ends_block l) ls"
  shows "\<exists>v'. stat_loop v (ls @ fp) = stat_loop v' fp
            \<and> pss v' = (case last_pss ls of Some t \<Rightarrow> t | None \<Rightarrow> pss v)
            \<and> done_v v' = done_v v"
  using assms
proof (induction ls arbitrary: v)
  case Nil
  show ?case by (intro exI [of _ v]) simp
next
  case (Cons l ls)
  let ?v1 = "v\<lparr>line := store_line l (line v)\<rparr>"
  from Cons.prems have rest: "list_all (\<lambda>l. \<not> ends_block l) ls" and l: "\<not> ends_block l"
    by simp_all
  have "\<exists>v2. stat_loop v (l # ls @ fp) = stat_loop v2 (ls @ fp) \<and> done_v v2 = done_v v
      \<and> pss v2 = (case sscanf_kB ''Pss:'' (cstr l) of Some t \<Rightarrow> t | None \<Rightarrow> pss v)"
  proof (cases "sscanf_kB ''Pss:'' (cstr l)")
    case (Some t)
    have "parse_stat (cstr l) ?v1 = Some (?v1\<lparr>pss := t\<rparr>)"
      by (rule pss_line_only [OF Some])
    from stat_loop_Some [OF this] Some show ?thesis
      by (intro exI [of _ "?v1\<lparr>pss := t\<rparr>"]) simp
  next
    case None
    show ?thesis
    proof (cases "parse_stat (cstr l) ?v1")
      case (Some v2)
      have "pss v2 = pss v" "done_v v2 = done_v v"
        using parse_stat_other_key [OF Some] parse_stat_frame [OF Some] None by simp_all
      with stat_loop_Some [OF Some] None show ?thesis
        by (intro exI [of _ v2]) simp
    next
      case pn: None
      then have "\<not> is_stat_line (cstr l)"
        using parse_stat_None [of "cstr l" ?v1] by simp
      with l have "\<not> looks_like_mapping (cstr l)"
        by (simp add: ends_block_def)
      with stat_loop_None [OF pn] None show ?thesis
        by (intro exI [of _ ?v1]) simp
    qed
  qed
  then obtain v2 where v2: "stat_loop v (l # ls @ fp) = stat_loop v2 (ls @ fp)"
      "done_v v2 = done_v v"
      "pss v2 = (case sscanf_kB ''Pss:'' (cstr l) of Some t \<Rightarrow> t | None \<Rightarrow> pss v)"
    by blast
  from Cons.IH [OF rest] obtain v' where v': "stat_loop v2 (ls @ fp) = stat_loop v' fp"
      "pss v' = (case last_pss ls of Some t \<Rightarrow> t | None \<Rightarrow> pss v2)" "done_v v' = done_v v2"
    by blast
  have "pss v' = (case last_pss (l # ls) of Some t \<Rightarrow> t | None \<Rightarrow> pss v)"
    using v'(2) v2(3) by (simp split: option.splits)
  with v2 v' show ?case
    by (intro exI [of _ v']) simp
qed

lemma stat_loop_header:
  assumes "ends_block h"
  shows "stat_loop v (h # fp) = (v\<lparr>line := store_line h (line v)\<rparr>, fp)"
proof -
  from assms have "parse_stat (cstr h) (v\<lparr>line := store_line h (line v)\<rparr>) = None"
    unfolding parse_stat_None by (simp add: ends_block_def)
  from stat_loop_None [OF this] assms show ?thesis
    by (simp add: ends_block_def)
qed

lemma mapinfo_loop_blocks:
  assumes "length (stats v) = NUM_HEAP" "\<not> done_v v" "cstr (line v) = cstr h"
    and "block_ok (h, ls)" "list_all block_ok bs"
    and "list_all (\<lambda>b. looks_like_mapping (cstr (fst b))) bs"
  shows "pss_total NUM_EXCLUSIVE_HEAP (stats (mapinfo_loop v (ls @ listing_of bs))) =
     pss_total NUM_EXCLUSIVE_HEAP (stats v) + own_pss (h, ls) + sum_list (map own_pss bs)
   \<and> pss_count NUM_EXCLUSIVE_HEAP (stats (mapinfo_loop v (ls @ listing_of bs))) \<le>
     pss_count NUM_EXCLUSIVE_HEAP (stats v) + unat (own_pss (h, ls))
     + sum_list (map (\<lambda>b. unat (own_pss b)) bs)"
  using assms
proof (induction bs arbitrary: v h ls)
  case Nil
  from Nil.prems(4) have hk: "header_ok (cstr h)"
    and ne: "list_all (\<lambda>l. \<not> ends_block l) ls" and lp: "last_pss ls \<noteq> None"
    by (simp_all add: block_ok_def)
  from hk Nil.prems(3) have hv: "header_ok (cstr (line v))" by simp
  then have len: "\<not> strlen (line v) < 1"
    using header_ok_nonempty by (cases "cstr (line v)") (auto simp: strlen_def)
  from block_summary [OF header_ok_chop [OF hv] Nil.prems(1), of ls]
  obtain v1 v3 fp' where
    v1: "v1 = parse_header ((begin_block v)\<lparr>line := chop (line v)\<rparr>)"
    and r: "stat_loop v1 ls = (v3, fp')"
    and b: "block (begin_block v) ls = (end_block v3, fp')"
    and v3: "\<not> skip v3" "block_inv v3" "stats v3 = stats v"
    by blast
  from stat_loop_block_lines [OF ne, of v1 "[]"] obtain v' where
    v': "stat_loop v1 ls = stat_loop v' []"
      "pss v' = (case last_pss ls of Some t \<Rightarrow> t | None \<Rightarrow> pss v1)"
    by auto
  from r v' lp have p3: "pss v3 = own_pss (h, ls)" and d3: "done_v v3"
    by (auto simp: own_pss_def)
  have l3: "length (stats v3) = NUM_HEAP"
    using v3(3) Nil.prems(1) by simp
  have tot: "pss_total NUM_EXCLUSIVE_HEAP (stats (end_block v3))
        = pss_total NUM_EXCLUSIVE_HEAP (stats v) + pss v3"
    using end_block_total [OF v3(1) v3(2) l3] v3(3) by simp
  have cnt: "pss_count NUM_EXCLUSIVE_HEAP (stats (end_block v3))
        \<le> pss_count NUM_EXCLUSIVE_HEAP (stats v) + unat (pss v3)"
    using end_block_count [OF v3(1) v3(2) l3] v3(3) by simp
  have "mapinfo_loop v ls = end_block v3"
    using len b d3 end_block_more [of v3] by (simp add: mapinfo_loop.simps [of v ls])
  then show ?case
    using tot cnt p3 by (simp add: listing_of_def)
next
  case (Cons b2 bs)
  obtain h2 ls2 where b2: "b2 = (h2, ls2)" by (cases b2)
  let ?fp = "ls2 @ listing_of bs"
  have lo: "listing_of (b2 # bs) = h2 # ?fp"
    by (simp add: listing_of_def b2)
  from Cons.prems(4) have hk: "header_ok (cstr h)"
    and ne: "list_all (\<lambda>l. \<not> ends_block l) ls" and lp: "last_pss ls \<noteq> None"
    by (simp_all add: block_ok_def)
  from Cons.prems(5) have ok2: "block_ok (h2, ls2)" and okr: "list_all block_ok bs"
    by (simp_all add: b2)
  from Cons.prems(6) have lk2: "looks_like_mapping (cstr h2)"
    and lkr: "list_all (\<lambda>b. looks_like_mapping (cstr (fst b))) bs"
    by (simp_all add: b2)
  from ok2 have "header_ok (cstr h2)" by (simp add: block_ok_def)
  with lk2 have e2: "ends_block h2"
    using header_no_stat by (simp add: ends_block_def)
  from hk Cons.prems(3) have hv: "header_ok (cstr (line v))" by simp
  then have len: "\<not> strlen (line v) < 1"
    using header_ok_nonempty by (cases "cstr (line v)") (auto simp: strlen_def)
  from block_summary [OF header_ok_chop [OF hv] Cons.prems(1), of "ls @ h2 # ?fp"]
  obtain v1 v3 fp' where
    v1: "v1 = parse_header ((begin_block v)\<lparr>line := chop (line v)\<rparr>)"
    and r: "stat_loop v1 (ls @ h2 # ?fp) = (v3, fp')"
    and b: "block (begin_block v) (ls @ h2 # ?fp) = (end_block v3, fp')"
    and v3: "\<not> skip v3" "block_inv v3" "stats v3 = stats v"
    by blast
  have k1: "\<not> done_v v1"
    using parse_header_keeps [of "(begin_block v)\<lparr>line := chop (line v)\<rparr>"] Cons.prems(2)
    by (simp add: v1 begin_block_def)
  from stat_loop_block_lines [OF ne, of v1 "h2 # ?fp"] obtain v' where
    v': "stat_loop v1 (ls @ h2 # ?fp) = stat_loop v' (h2 # ?fp)"
      "pss v' = (case last_pss ls of Some t \<Rightarrow> t | None \<Rightarrow> pss v1)"
      "done_v v' = done_v v1"
    by auto
  from r v'(1) stat_loop_header [OF e2, of v' ?fp]
  have e3: "v3 = v'\<lparr>line := store_line h2 (line v')\<rparr>" "fp' = ?fp"
    by simp_all
  from e3 v' lp k1 have p3: "pss v3 = own_pss (h, ls)" and d3: "\<not> done_v v3"
    and c3: "cstr (line v3) = cstr h2"
    by (auto simp: own_pss_def cstr_store_line)
  have l3: "length (stats v3) = NUM_HEAP"
    using v3(3) Cons.prems(1) by simp
  have tot: "pss_total NUM_EXCLUSIVE_HEAP (stats (end_block v3))
        = pss_total NUM_EXCLUSIVE_HEAP (stats v) + pss v3"
    using end_block_total [OF v3(1) v3(2) l3] v3(3) by simp
  note em = end_block_more [of v3]
  have m: "mapinfo_loop v (ls @ listing_of (b2 # bs)) = mapinfo_loop (end_block v3) ?fp"
    unfolding lo using len b d3 em e3(2)
    by (simp add: mapinfo_loop.simps [of v "ls @ h2 # ?fp"])
  have cnt: "pss_count NUM_EXCLUSIVE_HEAP (stats (end_block v3))
        \<le> pss_count NUM_EXCLUSIVE_HEAP (stats v) + unat (pss v3)"
    using end_block_count [OF v3(1) v3(2) l3] v3(3) by simp
  have "pss_total NUM_EXCLUSIVE_HEAP (stats (mapinfo_loop (end_block v3) ?fp)) =
     pss_total NUM_EXCLUSIVE_HEAP (stats (end_block v3)) + own_pss (h2, ls2)
     + sum_list (map own_pss bs)
   \<and> pss_count NUM_EXCLUSIVE_HEAP (stats (mapinfo_loop (end_block v3) ?fp)) \<le>
     pss_count NUM_EXCLUSIVE_HEAP (stats (end_block v3)) + unat (own_pss (h2, ls2))
     + sum_list (map (\<lambda>b. unat (own_pss b)) bs)"
    using Cons.IH [of "end_block v3" h2 ls2] em l3 d3 c3 ok2 okr lkr by simp
  then show ?case
    unfolding m using tot cnt p3 by (simp add: b2 add.assoc)
qed

lemma two_block_run:
  "read_mapinfo [] 0 two_block_smaps (replicate NUM_HEAP zero_stats) =
     (replicate NUM_HEAP zero_stats)
       [HEAP_NATIVE := \<lparr>stats_t.pss = 12, swappablePss = 0, privateDirty = 12,
                          sharedDirty = 0, privateClean = 0, sharedClean = 0\<rparr>,
        HEAP_DALVIK := \<lparr>stats_t.pss = 100, swappablePss = 0, privateDirty = 12,
                          sharedDirty = 0, privateClean = 0, sharedClean = 0\<rparr>,
        HEAP_DALVIK_NORMAL := \<lparr>stats_t.pss = 100, swappablePss = 0, privateDirty = 12,
                          sharedDirty = 0, privateClean = 0, sharedClean = 0\<rparr>]"
  by (simp add: two_block_smaps_def heap_header_def read_mapinfo_def fgets_def mapinfo_loop.simps
      eval_defs cong: eval_congs)

lemma no_pss_run:
  "read_mapinfo [] 0 (listing_of no_pss_blocks) (replicate NUM_HEAP zero_stats) =
     (replicate NUM_HEAP zero_stats)
       [HEAP_NATIVE := \<lparr>stats_t.pss = 12, swappablePss = 0, privateDirty = 0,
                          sharedDirty = 0, privateClean = 0, sharedClean = 0\<rparr>,
        HEAP_STACK := \<lparr>stats_t.pss = 12, swappablePss = 0, privateDirty = 4,
                          sharedDirty = 0, privateClean = 0, sharedClean = 0\<rparr>]"
  by (simp add: listing_of_def no_pss_blocks_def heap_header_def stack_header_def
      read_mapinfo_def fgets_def mapinfo_loop.simps eval_defs cong: eval_congs)

lemma short_address_run:
  "read_mapinfo [] 0 (listing_of short_address_blocks) (replicate NUM_HEAP zero_stats) =
     (replicate NUM_HEAP zero_stats)
       [HEAP_NATIVE := \<lparr>stats_t.pss = 2, swappablePss = 0, privateDirty = 0,
                          sharedDirty = 0, privateClean = 0, sharedClean = 0\<rparr>]"
  by (simp add: listing_of_def short_address_blocks_def heap_header_def
      read_mapinfo_def fgets_def mapinfo_loop.simps eval_defs cong: eval_congs)

lemma sample_blocks_own:
  "map own_pss two_blocks = [12, 100] \<and> map own_pss no_pss_blocks = [12, 0]
   \<and> map own_pss short_address_blocks = [1, 2]"
  by (simp add: two_blocks_def no_pss_blocks_def short_address_blocks_def own_pss_def
      heap_header_def stack_header_def eval_defs cong: eval_congs)

lemma sample_blocks_headers:
  "list_all (\<lambda>b. header_ok (cstr (fst b))) two_blocks
   \<and> list_all (\<lambda>b. header_ok (cstr (fst b))) no_pss_blocks
   \<and> list_all (\<lambda>b. header_ok (cstr (fst b))) short_address_blocks"
  by (simp add: two_blocks_def no_pss_blocks_def short_address_blocks_def header_ok_def
      heap_header_def stack_header_def eval_defs cong: eval_congs)

lemma two_blocks_listing: "listing_of two_blocks = two_block_smaps"
  by (simp add: listing_of_def two_blocks_def two_block_smaps_def)

lemma two_blocks_ok:
  "list_all block_ok two_blocks
   \<and> list_all (\<lambda>b. looks_like_mapping (cstr (fst b))) (tl two_blocks)
   \<and> map own_pss two_blocks = [12, 100]"
  by (simp add: two_blocks_def heap_header_def block_ok_def header_ok_def ends_block_def
      own_pss_def is_stat_line_def stat_keys_def eval_defs cong: eval_congs)

text \<open>
  C1, as the code has it. Three listings with well-formed headers on which the sums
  differ. The array has 21 entries, of which the five Dalvik sub-heaps repeat what
  \<^verbatim>\<open>HEAP_DALVIK\<close> and \<^verbatim>\<open>HEAP_DALVIK_OTHER\<close> hold: over all entries the blocks with
  pss 12 and 100 give 212. A block without a \<^verbatim>\<open>Pss\<close> line is counted with the value
  read in the block before it: the blocks with pss 12 and none give 24. A header that
  has not the form the parser looks for starts no block, and the \<^verbatim>\<open>Pss\<close> line behind
  it replaces the value of the block before: the blocks with pss 1 and 2 give 2.
\<close>

theorem all_entries_counterexample:
  "list_all (\<lambda>b. header_ok (cstr (fst b))) two_blocks
   \<and> map own_pss two_blocks = [12, 100]
   \<and> pss_total NUM_HEAP
        (read_mapinfo [] 0 (listing_of two_blocks) (replicate NUM_HEAP zero_stats)) = 212
   \<and> list_all (\<lambda>b. header_ok (cstr (fst b))) no_pss_blocks
   \<and> map own_pss no_pss_blocks = [12, 0]
   \<and> pss_total NUM_EXCLUSIVE_HEAP
        (read_mapinfo [] 0 (listing_of no_pss_blocks) (replicate NUM_HEAP zero_stats)) = 24
   \<and> list_all (\<lambda>b. header_ok (cstr (fst b))) short_address_blocks
   \<and> map own_pss short_address_blocks = [1, 2]
   \<and> pss_total NUM_EXCLUSIVE_HEAP
        (read_mapinfo [] 0 (listing_of short_address_blocks) (replicate NUM_HEAP zero_stats)) = 2"
proof -
  have a: "pss_total NUM_HEAP
        (read_mapinfo [] 0 (listing_of two_blocks) (replicate NUM_HEAP zero_stats)) = 212"
    unfolding two_blocks_listing two_block_run
    by (simp add: pss_total_nth heap_defs upt_rec nth_list_update zero_stats_def)
  have b: "pss_total NUM_EXCLUSIVE_HEAP
        (read_mapinfo [] 0 (listing_of no_pss_blocks) (replicate NUM_HEAP zero_stats)) = 24"
    unfolding no_pss_run
    by (simp add: pss_total_nth heap_defs upt_rec nth_list_update zero_stats_def)
  have c: "pss_total NUM_EXCLUSIVE_HEAP
        (read_mapinfo [] 0 (listing_of short_address_blocks) (replicate NUM_HEAP zero_stats)) = 2"
    unfolding short_address_run
    by (simp add: pss_total_nth heap_defs upt_rec nth_list_update zero_stats_def)
  show ?thesis
    using a b c sample_blocks_own sample_blocks_headers by simp
qed

text \<open>
  C1, amended: for a listing of regular blocks in which every header after the first
  has the form the parser takes for a new mapping, read from any initial content of
  the line buffer into a cleared array: the sum of \<^verbatim>\<open>pss\<close> over the
  \<^verbatim>\<open>_NUM_EXCLUSIVE_HEAP\<close> categories \<^verbatim>\<open>HEAP_UNKNOWN\<close> to \<^verbatim>\<open>HEAP_UNKNOWN_MAP\<close> equals
  the sum of the pss values of the blocks, in the 32-bit arithmetic of the code. After
  the loop of \<^verbatim>\<open>android_os_Debug_getDirtyPagesPid\<close> has added the other categories
  into \<^verbatim>\<open>HEAP_UNKNOWN\<close>, the three core categories have the same sum. When the pss
  values of the blocks add up to less than \<open>2 ^ 31\<close>, nothing wraps around: the sum of
  the 16 totals, read as signed numbers, is that number.
\<close>

theorem exclusive_pss_sum:
  assumes "list_all block_ok bs"
    and "list_all (\<lambda>b. looks_like_mapping (cstr (fst b))) (tl bs)"
  shows "pss_total NUM_EXCLUSIVE_HEAP
           (read_mapinfo line0 name_pos0 (listing_of bs) (replicate NUM_HEAP zero_stats))
         = sum_list (map own_pss bs)
       \<and> pss_total NUM_CORE_HEAP (getDirtyPagesPid_stats line0 name_pos0 (Some (listing_of bs)))
         = sum_list (map own_pss bs)
       \<and> (sum_list (map (\<lambda>b. unat (own_pss b)) bs) < 2 ^ 31 \<longrightarrow>
            sum_list (map (\<lambda>s. sint (stats_t.pss s)) (take NUM_EXCLUSIVE_HEAP
              (read_mapinfo line0 name_pos0 (listing_of bs) (replicate NUM_HEAP zero_stats))))
            = int (sum_list (map (\<lambda>b. unat (own_pss b)) bs)))"
proof -
  let ?st = "read_mapinfo line0 name_pos0 (listing_of bs) (replicate NUM_HEAP zero_stats)"
  have z: "pss_total NUM_EXCLUSIVE_HEAP (replicate NUM_HEAP zero_stats) = 0"
    "pss_count NUM_EXCLUSIVE_HEAP (replicate NUM_HEAP zero_stats) = 0"
    by (simp_all add: pss_total_def pss_count_def heap_defs zero_stats_def sum_list_replicate)
  have a: "pss_total NUM_EXCLUSIVE_HEAP ?st = sum_list (map own_pss bs)
      \<and> pss_count NUM_EXCLUSIVE_HEAP ?st \<le> sum_list (map (\<lambda>b. unat (own_pss b)) bs)"
  proof (cases bs)
    case Nil
    then show ?thesis
      using z by (simp add: read_mapinfo_def fgets_def listing_of_def)
  next
    case (Cons b bs')
    obtain h ls where b: "b = (h, ls)" by (cases b)
    let ?v = "init_locals (store_line h line0) name_pos0 (replicate NUM_HEAP zero_stats)"
    have v: "length (stats ?v) = NUM_HEAP" "\<not> done_v ?v"
      "cstr (line ?v) = cstr h" "stats ?v = replicate NUM_HEAP zero_stats"
      by (simp_all add: init_locals_def cstr_store_line)
    have ok: "block_ok (h, ls)" "list_all block_ok bs'"
      "list_all (\<lambda>b. looks_like_mapping (cstr (fst b))) bs'"
      using assms Cons b by simp_all
    have lo: "listing_of bs = h # ls @ listing_of bs'"
      by (simp add: listing_of_def Cons b)
    from mapinfo_loop_blocks [OF v(1) v(2) v(3) ok] show ?thesis
      unfolding lo using Cons b v(4) z by (simp add: read_mapinfo_def fgets_def)
  qed
  have l: "length ?st = NUM_HEAP"
    by (simp add: read_mapinfo_length)
  have c: "pss_total NUM_CORE_HEAP (getDirtyPagesPid_stats line0 name_pos0 (Some (listing_of bs)))
         = sum_list (map own_pss bs)"
    using a fold_other_core [OF l]
    by (simp add: getDirtyPagesPid_stats_def load_maps_def)
  have d: "sum_list (map (\<lambda>s. sint (stats_t.pss s)) (take NUM_EXCLUSIVE_HEAP ?st))
            = int (sum_list (map (\<lambda>b. unat (own_pss b)) bs))"
    if "sum_list (map (\<lambda>b. unat (own_pss b)) bs) < 2 ^ 31"
    using pss_count_exact [of NUM_EXCLUSIVE_HEAP ?st bs] a that by blast
  show ?thesis
    using a c d by blast
qed

theorem exclusive_pss_sum_witness:
  "list_all block_ok two_blocks
   \<and> list_all (\<lambda>b. looks_like_mapping (cstr (fst b))) (tl two_blocks)
   \<and> listing_of two_blocks = two_block_smaps
   \<and> map own_pss two_blocks = [12, 100]
   \<and> pss_total NUM_EXCLUSIVE_HEAP
        (read_mapinfo [] 0 two_block_smaps (replicate NUM_HEAP zero_stats)) = 112
   \<and> pss_total NUM_CORE_HEAP (getDirtyPagesPid_stats [] 0 (Some two_block_smaps)) = 112
   \<and> sum_list (map (\<lambda>s. sint (stats_t.pss s)) (take NUM_EXCLUSIVE_HEAP
        (read_mapinfo [] 0 two_block_smaps (replicate NUM_HEAP zero_stats)))) = 112"
proof -
  have "map (\<lambda>b. unat (own_pss b)) two_blocks = map unat (map own_pss two_blocks)"
    by simp
  also have "\<dots> = [12, 100]"
    using two_blocks_ok by simp
  finally have n: "sum_list (map (\<lambda>b. unat (own_pss b)) two_blocks) = 112"
    by simp
  show ?thesis
    using exclusive_pss_sum [of two_blocks "[]" 0] two_blocks_ok two_blocks_listing
    unfolding n by simp
qed

section \<open>The private-usage test of \<^verbatim>\<open>android_os_Debug_getPssPid\<close>\<close>

text \<open>
  C4, as the code has it. \<^verbatim>\<open>line + 14\<close> is an offset into the buffer, not into the
  line: for a line of fewer than 14 characters it lies behind the line's terminator,
  in what the line before left in the buffer. In the listing of the two lines
  \<^verbatim>\<open>Private_Dirty: 12 kB\<close> and \<^verbatim>\<open>P\<close> the second line holds no number, and it adds
  the 12 of the first line a second time.
\<close>

theorem short_line_counterexample:
  "short_smaps ! 1 ! 0 = CHR ''P''
   \<and> length (cstr (short_smaps ! 1)) < 14
   \<and> first_number (cstr (short_smaps ! 1)) = 0
   \<and> getPss_loop [] (0, 0) (take 1 short_smaps) = (0, 12)
   \<and> getPss_loop [] (0, 0) short_smaps = (0, 24)"
  by (simp add: short_smaps_def pss_line_def store_line_def nl_def cstr_def NUL_def strncmp_numeral
      skip_to_digit_def atoi_def decval_def first_number_def scan_defs cong: eval_congs)

text \<open>
  C4, amended: a line in the buffer that starts with \<^verbatim>\<open>P\<close> and not with \<^verbatim>\<open>Pss:\<close>.
  One of the two calls of \<^verbatim>\<open>strncmp\<close> for \<^verbatim>\<open>Private_Clean:\<close> and
  \<^verbatim>\<open>Private_Dirty:\<close> returns a non-zero value, whatever the line is, so the branch
  is taken: \<^verbatim>\<open>uss\<close> grows by the first number found from offset 14 of the line
  buffer on, taken as a 32-bit \<^verbatim>\<open>int\<close>, and \<^verbatim>\<open>pss\<close> stays. For a line of at least 14
  characters the text from offset 14 of the buffer on is the line's own text from
  column 14 on.
\<close>

theorem private_test_always_true:
  assumes "store_line chunk buf0 ! 0 = CHR ''P''"
    and "strncmp (cstr (store_line chunk buf0)) ''Pss:'' 4 \<noteq> 0"
  shows "(strncmp (cstr (store_line chunk buf0)) ''Private_Clean:'' 14 \<noteq> 0
          \<or> strncmp (cstr (store_line chunk buf0)) ''Private_Dirty:'' 14 \<noteq> 0)
       \<and> pss_line (store_line chunk buf0) (pss_sum, uss_sum)
           = (pss_sum, uss_sum
                + scast (word_of_int (first_number (cstr (drop 14 (store_line chunk buf0)))) :: u32))
       \<and> (14 \<le> length (cstr chunk) \<longrightarrow>
             cstr (drop 14 (store_line chunk buf0)) = drop 14 (cstr chunk))"
proof -
  note d = private_prefixes_differ [of "store_line chunk buf0"]
  have p: "pss_line (store_line chunk buf0) (pss_sum, uss_sum)
      = (pss_sum, uss_sum
           + scast (word_of_int (first_number (cstr (drop 14 (store_line chunk buf0)))) :: u32))"
    using assms d by (simp add: pss_line_def atoi_skip)
  have "cstr (drop 14 (store_line chunk buf0)) = drop 14 (cstr chunk)" if "14 \<le> length (cstr chunk)"
    using that cstr_drop_within [of 14 "store_line chunk buf0"]
    by (simp add: strlen_def cstr_store_line)
  with d p show ?thesis by blast
qed

theorem private_test_always_true_witness:
  "store_line hugetlb_line [] ! 0 = CHR ''P''
   \<and> strncmp (cstr (store_line hugetlb_line [])) ''Pss:'' 4 \<noteq> 0
   \<and> take 14 (cstr hugetlb_line) \<noteq> ''Private_Clean:''
   \<and> take 14 (cstr hugetlb_line) \<noteq> ''Private_Dirty:''
   \<and> 14 \<le> length (cstr hugetlb_line)
   \<and> first_number (drop 14 (cstr hugetlb_line)) = 7
   \<and> pss_line (store_line hugetlb_line []) (0, 0) = (0, 7)"
proof -
  have a: "store_line hugetlb_line [] ! 0 = CHR ''P''"
    by (simp add: hugetlb_line_def store_line_def)
  have b: "strncmp (cstr (store_line hugetlb_line [])) ''Pss:'' 4 \<noteq> 0"
    unfolding cstr_store_line
    by (simp add: hugetlb_line_def cstr_def NUL_def nl_def strncmp_numeral)
  have c: "14 \<le> length (cstr hugetlb_line)" "take 14 (cstr hugetlb_line) \<noteq> ''Private_Clean:''"
    "take 14 (cstr hugetlb_line) \<noteq> ''Private_Dirty:''"
    by (simp_all add: hugetlb_line_def cstr_def NUL_def nl_def)
  have f: "first_number (drop 14 (cstr hugetlb_line)) = 7"
    by (simp add: hugetlb_line_def cstr_def NUL_def nl_def first_number_def decval_def)
  show ?thesis
    using private_test_always_true [OF a b, of 0 0] a b c f by simp
qed

section \<open>The comparison of allocation records\<close>

lemma same_upto_iff:
  "same_upto bt1 bt2 k i \<longleftrightarrow> (\<forall>j. k \<le> j \<and> j < i \<longrightarrow> bt1 ! j = bt2 ! j \<and> bt1 ! j \<noteq> 0)"
  by (auto simp: same_upto_def list_all_iff)

lemma from_split: "k \<le> j \<longleftrightarrow> j = k \<or> Suc k \<le> j"
  by arith

lemma same_upto_step:
  "k < i \<Longrightarrow> same_upto bt1 bt2 k i \<longleftrightarrow> (bt1 ! k = bt2 ! k \<and> bt1 ! k \<noteq> 0 \<and> same_upto bt1 bt2 (Suc k) i)"
  unfolding same_upto_iff from_split [of k]
  by blast

lemma same_upto_refl [simp]: "same_upto bt1 bt2 k k"
  by (simp add: same_upto_def)

lemma ex_from_split:
  "(\<exists>i. k \<le> i \<and> i < k + Suc n \<and> Q i) \<longleftrightarrow> (Q k \<or> (\<exists>i. Suc k \<le> i \<and> i < Suc k + n \<and> Q i))"
  unfolding from_split [of k]
  by auto

lemma compare_backtrace_less:
  "compare_backtrace bt1 bt2 k n = - 1 \<longleftrightarrow>
     (\<exists>i. k \<le> i \<and> i < k + n \<and> same_upto bt1 bt2 k i \<and> bt1 ! i <s bt2 ! i)"
proof (induction n arbitrary: k)
  case 0
  show ?case by simp
next
  case (Suc n)
  have step: "(\<exists>i. Suc k \<le> i \<and> i < Suc k + n \<and> same_upto bt1 bt2 k i \<and> bt1 ! i <s bt2 ! i)
     \<longleftrightarrow> (bt1 ! k = bt2 ! k \<and> bt1 ! k \<noteq> 0 \<and>
          (\<exists>i. Suc k \<le> i \<and> i < Suc k + n \<and> same_upto bt1 bt2 (Suc k) i \<and> bt1 ! i <s bt2 ! i))"
    using same_upto_step [of k _ bt1 bt2] by (auto simp: Suc_le_eq)
  show ?case
    unfolding ex_from_split [of k n "\<lambda>i. same_upto bt1 bt2 k i \<and> bt1 ! i <s bt2 ! i"] step
    using Suc.IH [of "Suc k"]
    by (auto simp: Let_def)
qed

lemma compare_backtrace_greater:
  "compare_backtrace bt1 bt2 k n = 1 \<longleftrightarrow>
     (\<exists>i. k \<le> i \<and> i < k + n \<and> same_upto bt1 bt2 k i \<and> bt2 ! i <s bt1 ! i)"
proof (induction n arbitrary: k)
  case 0
  show ?case by simp
next
  case (Suc n)
  have step: "(\<exists>i. Suc k \<le> i \<and> i < Suc k + n \<and> same_upto bt1 bt2 k i \<and> bt2 ! i <s bt1 ! i)
     \<longleftrightarrow> (bt1 ! k = bt2 ! k \<and> bt1 ! k \<noteq> 0 \<and>
          (\<exists>i. Suc k \<le> i \<and> i < Suc k + n \<and> same_upto bt1 bt2 (Suc k) i \<and> bt2 ! i <s bt1 ! i))"
    using same_upto_step [of k _ bt1 bt2] by (auto simp: Suc_le_eq)
  show ?case
    unfolding ex_from_split [of k n "\<lambda>i. same_upto bt1 bt2 k i \<and> bt2 ! i <s bt1 ! i"] step
    using Suc.IH [of "Suc k"]
    by (auto simp: Let_def)
qed

lemma compare_backtrace_zero:
  "compare_backtrace bt1 bt2 k n = 0 \<longleftrightarrow>
     (\<exists>i. k \<le> i \<and> i < k + n \<and> same_upto bt1 bt2 k i \<and> bt1 ! i = 0 \<and> bt2 ! i = 0)
     \<or> same_upto bt1 bt2 k (k + n)"
proof (induction n arbitrary: k)
  case 0
  show ?case by simp
next
  case (Suc n)
  have step: "(\<exists>i. Suc k \<le> i \<and> i < Suc k + n \<and> same_upto bt1 bt2 k i \<and> bt1 ! i = 0 \<and> bt2 ! i = 0)
     \<longleftrightarrow> (bt1 ! k = bt2 ! k \<and> bt1 ! k \<noteq> 0 \<and>
          (\<exists>i. Suc k \<le> i \<and> i < Suc k + n \<and> same_upto bt1 bt2 (Suc k) i \<and> bt1 ! i = 0 \<and> bt2 ! i = 0))"
    using same_upto_step [of k _ bt1 bt2] by (auto simp: Suc_le_eq)
  have last: "same_upto bt1 bt2 k (k + Suc n)
     \<longleftrightarrow> (bt1 ! k = bt2 ! k \<and> bt1 ! k \<noteq> 0 \<and> same_upto bt1 bt2 (Suc k) (Suc k + n))"
    using same_upto_step [of k "k + Suc n" bt1 bt2] by simp
  show ?case
    unfolding ex_from_split [of k n "\<lambda>i. same_upto bt1 bt2 k i \<and> bt1 ! i = 0 \<and> bt2 ! i = 0"] step last
    using Suc.IH [of "Suc k"]
    by (auto simp: Let_def)
qed

text \<open>
  C3, as the code has it. \<^verbatim>\<open>compareHeapRecords\<close> compares the field \<^verbatim>\<open>size\<close> as it
  is stored, the flag bit \<^verbatim>\<open>SIZE_FLAG_ZYGOTE_CHILD\<close> included (the flag is cleared
  only where a record is printed). The record of size 1 with the flag set sorts
  before the record of size 5 without it, although its size without the flag is the
  smaller one.
\<close>

theorem compare_flag_counterexample:
  "rsize rec_flagged AND NOT SIZE_FLAG_ZYGOTE_CHILD < rsize rec_plain AND NOT SIZE_FLAG_ZYGOTE_CHILD
   \<and> compareHeapRecords rec_flagged rec_plain = - 1"
  by (simp add: rec_flagged_def rec_plain_def SIZE_FLAG_ZYGOTE_CHILD_def compareHeapRecords_def)

text \<open>
  C3, amended: two records whose stored size fields differ are ordered by the stored
  field, the larger first, whatever their backtraces are.
\<close>

theorem compare_by_stored_size:
  "rsize r1 \<noteq> rsize r2 \<Longrightarrow>
     (compareHeapRecords r1 r2 = - 1 \<longleftrightarrow> rsize r2 < rsize r1)
   \<and> (compareHeapRecords r1 r2 = 1 \<longleftrightarrow> rsize r1 < rsize r2)
   \<and> compareHeapRecords r1 r2 \<noteq> 0"
  by (auto simp: compareHeapRecords_def Let_def)

theorem compare_by_stored_size_witness:
  "rsize rec_flagged \<noteq> rsize rec_plain \<and> compareHeapRecords rec_flagged rec_plain = - 1
   \<and> rsize rec_plain < rsize rec_flagged"
  using compare_by_stored_size [of rec_flagged rec_plain]
  by (simp add: rec_flagged_def rec_plain_def)

text \<open>
  C6, as the code has it. The slots are \<^verbatim>\<open>intptr_t\<close> values and are compared as
  signed numbers, a zero slot like any other value. So the order is not the ascending
  lexicographic order of the address sequences: with equal sizes the record with the
  frame \<open>0x40000000\<close> sorts behind the record with the larger address \<open>0xb6f00000\<close>
  (a negative \<^verbatim>\<open>intptr_t\<close>), and the backtrace \<open>[1]\<close> sorts behind \<open>[1, 0xb6f00000]\<close>,
  of which it is a proper prefix.
\<close>

theorem compare_signed_counterexample:
  "rsize rec_low = rsize rec_high
   \<and> backtrace rec_low ! 0 < backtrace rec_high ! 0
   \<and> compareHeapRecords rec_low rec_high = 1
   \<and> rsize rec_short = rsize rec_long
   \<and> strict_prefix (takeWhile (\<lambda>a. a \<noteq> 0) (backtrace rec_short))
                     (takeWhile (\<lambda>a. a \<noteq> 0) (backtrace rec_long))
   \<and> compareHeapRecords rec_short rec_long = 1"
proof -
  have a: "compare_backtrace (backtrace rec_low) (backtrace rec_high) 0 BACKTRACE_SIZE = 1"
    unfolding compare_backtrace_greater
    by (rule exI [of _ 0]) (simp add: rec_low_def rec_high_def BACKTRACE_SIZE_def word_sless_alt)
  have b: "compare_backtrace (backtrace rec_short) (backtrace rec_long) 0 BACKTRACE_SIZE = 1"
    unfolding compare_backtrace_greater
    by (rule exI [of _ 1])
       (simp add: rec_short_def rec_long_def BACKTRACE_SIZE_def word_sless_alt same_upto_def)
  show ?thesis
    using a b
    by (simp add: compareHeapRecords_def rec_low_def rec_high_def rec_short_def rec_long_def)
qed

text \<open>
  C6, amended: for two records of equal size the result is decided at the first slot,
  among the \<open>BACKTRACE_SIZE = 32\<close> slots, where the backtraces differ or both hold
  zero. The record whose slot there holds the smaller value as \<^verbatim>\<open>intptr_t\<close>, a signed
  number, sorts first (a zero of one record is compared like any other value); a
  zero in both records, or 32 equal slots, make the records equal. No slot behind a
  zero is looked at. The witness is the pair of backtraces \<open>[1,2,0]\<close> and
  \<open>[1,3,0]\<close> of the claim.
\<close>

theorem compare_equal_size:
  assumes "rsize r1 = rsize r2"
  shows "(compareHeapRecords r1 r2 = - 1 \<longleftrightarrow>
            (\<exists>i<BACKTRACE_SIZE. same_upto (backtrace r1) (backtrace r2) 0 i
                \<and> backtrace r1 ! i <s backtrace r2 ! i))
       \<and> (compareHeapRecords r1 r2 = 1 \<longleftrightarrow>
            (\<exists>i<BACKTRACE_SIZE. same_upto (backtrace r1) (backtrace r2) 0 i
                \<and> backtrace r2 ! i <s backtrace r1 ! i))
       \<and> (compareHeapRecords r1 r2 = 0 \<longleftrightarrow>
            (\<exists>i<BACKTRACE_SIZE. same_upto (backtrace r1) (backtrace r2) 0 i
                \<and> backtrace r1 ! i = 0 \<and> backtrace r2 ! i = 0)
            \<or> same_upto (backtrace r1) (backtrace r2) 0 BACKTRACE_SIZE)"
  using assms
    compare_backtrace_less [of "backtrace r1" "backtrace r2" 0 BACKTRACE_SIZE]
    compare_backtrace_greater [of "backtrace r1" "backtrace r2" 0 BACKTRACE_SIZE]
    compare_backtrace_zero [of "backtrace r1" "backtrace r2" 0 BACKTRACE_SIZE]
  by (simp add: compareHeapRecords_def)

theorem compare_equal_size_witness:
  "rsize rec_bt2 = rsize rec_bt3
   \<and> compareHeapRecords rec_bt2 rec_bt3 = - 1 \<and> compareHeapRecords rec_bt3 rec_bt2 = 1"
proof -
  have eq: "rsize rec_bt2 = rsize rec_bt3" "rsize rec_bt3 = rsize rec_bt2"
    by (simp_all add: rec_bt2_def rec_bt3_def)
  have a: "(1::nat) < BACKTRACE_SIZE \<and> same_upto (backtrace rec_bt2) (backtrace rec_bt3) 0 1
      \<and> backtrace rec_bt2 ! 1 <s backtrace rec_bt3 ! 1"
    by (simp add: rec_bt2_def rec_bt3_def BACKTRACE_SIZE_def same_upto_def)
  have b: "(1::nat) < BACKTRACE_SIZE \<and> same_upto (backtrace rec_bt3) (backtrace rec_bt2) 0 1
      \<and> backtrace rec_bt2 ! 1 <s backtrace rec_bt3 ! 1"
    by (simp add: rec_bt2_def rec_bt3_def BACKTRACE_SIZE_def same_upto_def)
  from a have "compareHeapRecords rec_bt2 rec_bt3 = - 1"
    using compare_equal_size [OF eq(1)] by blast
  moreover from b have "compareHeapRecords rec_bt3 rec_bt2 = 1"
    using compare_equal_size [OF eq(2)] by blast
  ultimately show ?thesis using eq by simp
qed

section \<open>The dump without allocation records\<close>

text \<open>
  C8: when \<^verbatim>\<open>get_malloc_leak_info\<close> returns no buffer, the text written is the
  guidance on how to enable allocation tracking and nothing else, whatever the other
  results of the call and the mapping listing are: no header of the report, no
  count of records, no line of a record, no \<^verbatim>\<open>MAPS\<close> section and no end marker.
\<close>

theorem dumpNativeHeap_no_info:
  "dumpNativeHeap None overallSize infoSize totalMemory backtraceSize maps = Inr guidance
   \<and> strstr guidance ''Android Native Heap Dump'' = None
   \<and> strstr guidance ''Allocation records'' = None
   \<and> strstr guidance (nl @ ''z '') = None \<and> take 2 guidance \<noteq> ''z ''
   \<and> strstr guidance ''MAPS'' = None
   \<and> strstr guidance ''END'' = None"
  by (simp add: dumpNativeHeap_def guidance_def nl_def)

end
